theory Spec2Isabelle
  imports Complex_Main "HOL-Library.Multiset"
begin

section \<open>Dynamic payload values\<close>

text \<open>
  Event payloads, alert data and action data are Go values of type
  \<^verbatim>\<open>map[string]interface{}\<close>.  A value read back from JSON is \<^verbatim>\<open>nil\<close>, a
  \<^verbatim>\<open>bool\<close>, a \<^verbatim>\<open>float64\<close>, a \<^verbatim>\<open>string\<close>, a slice or a nested map; values
  built by the Go code itself may also be an \<^verbatim>\<open>int\<close> or a \<^verbatim>\<open>uuid.UUID\<close>.  A
  \<^verbatim>\<open>float64\<close> is represented by the real number it denotes, a \<^verbatim>\<open>uuid.UUID\<close> by
  its canonical text, a nested map by the list of its entries.  \<open>GNil\<close> stands for
  every \<^verbatim>\<open>nil\<close>: the empty interface, a nil pointer, a nil slice or map.
\<close>

datatype gval =
    GNil
  | GBool bool
  | GInt int
  | GFloat real
  | GString string
  | GUuid string
  | GSlice "gval list"
  | GMap "(string \<times> gval) list"

type_synonym gdata = "string \<rightharpoonup> gval"

section \<open>The allocator agent: pending actions\<close>

record PendingAction =
  ID :: string
  Type :: string
  BoardID :: string
  Priority :: int
  Data :: gdata
  CreatedAt :: int
  RetryCount :: int

text \<open>The field \<^verbatim>\<open>pendingActions map[string]PendingAction\<close> of the agent.\<close>

type_synonym queue = "string \<rightharpoonup> PendingAction"

definition queueAction :: "queue \<Rightarrow> PendingAction \<Rightarrow> queue" where
  "queueAction q action = q(ID action \<mapsto> action)"

definition removeAction :: "queue \<Rightarrow> string \<Rightarrow> queue" where
  "removeAction q actionID = q(actionID := None)"

subsection \<open>The priority sort of \<^verbatim>\<open>executePendingActions\<close>\<close>

text \<open>
  \<^verbatim>\<open>
  for i := 0; i < len(actions)-1; i++ {
      for j := i + 1; j < len(actions); j++ {
          if actions[i].Priority < actions[j].Priority {
              actions[i], actions[j] = actions[j], actions[i]
          }
      }
  }
  \<close>
  Both loops are modelled on the indices, the swap as two list updates.  The inner
  loop is only entered with \<open>i < j\<close>, so every index read is in range whenever
  \<open>j < length actions\<close>.
\<close>

definition swap :: "nat \<Rightarrow> nat \<Rightarrow> 'a list \<Rightarrow> 'a list" where
  "swap i j xs = xs[i := xs ! j, j := xs ! i]"

function sort_inner :: "nat \<Rightarrow> nat \<Rightarrow> PendingAction list \<Rightarrow> PendingAction list" where
  "sort_inner i j actions =
     (if j < length actions
      then sort_inner i (j + 1)
             (if Priority (actions ! i) < Priority (actions ! j)
              then swap i j actions else actions)
      else actions)"
  by pat_completeness auto
termination
  by (relation "measure (\<lambda>(i, j, actions). length actions - j)") (auto simp: swap_def)

declare sort_inner.simps [simp del]

function sort_outer :: "nat \<Rightarrow> PendingAction list \<Rightarrow> PendingAction list" where
  "sort_outer i actions =
     (if i + 1 < length actions
      then sort_outer (i + 1) (sort_inner i (i + 1) actions)
      else actions)"
  by pat_completeness auto

lemma length_swap [simp]: "length (swap i j xs) = length xs"
  by (simp add: swap_def)

lemma length_sort_inner [simp]: "length (sort_inner i j actions) = length actions"
proof (induction i j actions rule: sort_inner.induct)
  case (1 i j actions)
  show ?case
  proof (cases "j < length actions")
    case True
    with "1.IH" show ?thesis by (subst sort_inner.simps) simp
  next
    case False
    then show ?thesis by (subst sort_inner.simps) simp
  qed
qed

termination sort_outer
  by (relation "measure (\<lambda>(i, actions). length actions - i)") auto

declare sort_outer.simps [simp del]

definition sort_by_priority :: "PendingAction list \<Rightarrow> PendingAction list" where
  "sort_by_priority actions = sort_outer 0 actions"

subsection \<open>\<^verbatim>\<open>executePendingActions\<close>\<close>

text \<open>
  \<^verbatim>\<open>executeAction\<close> posts the action to the task-management API and fails on a
  transport error or on a status other than 201.  The outcome belongs to the outside
  world, so it is a parameter: \<open>executeAction action\<close> is \<open>True\<close> when the
  call returns \<^verbatim>\<open>nil\<close>.

  The body of the \<^verbatim>\<open>for _, action := range actions\<close> loop works on the copy
  \<^verbatim>\<open>action\<close> of the snapshot entry: on failure the copy's \<^verbatim>\<open>RetryCount\<close> is
  incremented and the copy is written back under its ID while the count is below 3,
  otherwise the entry is deleted; on success the entry is deleted.
  \<^verbatim>\<open>RetryCount\<close> is a Go \<^verbatim>\<open>int\<close>; it is modelled as an unbounded integer, which
  agrees with the machine integer on every value a queued action can carry (actions
  are created with count 0 and never stored with a count above 2).
\<close>

definition attempt :: "(PendingAction \<Rightarrow> bool) \<Rightarrow> PendingAction \<Rightarrow> queue \<Rightarrow> queue" where
  "attempt executeAction action q =
     (if \<not> executeAction action
      then (let action' = action\<lparr>RetryCount := RetryCount action + 1\<rparr>
            in if RetryCount action' < 3
               then q(ID action' \<mapsto> action')
               else removeAction q (ID action'))
      else removeAction q (ID action))"

fun execute_loop :: "(PendingAction \<Rightarrow> bool) \<Rightarrow> PendingAction list \<Rightarrow> queue \<Rightarrow> queue" where
  "execute_loop executeAction [] q = q"
| "execute_loop executeAction (action # actions) q =
     execute_loop executeAction actions (attempt executeAction action q)"

text \<open>
  The snapshot \<^verbatim>\<open>for _, action := range a.pendingActions\<close> visits the entries of
  the map in an order the Go runtime chooses.  The order is the parameter
  \<open>keys\<close>; it is an enumeration of the map when \<open>enumerates keys q\<close> holds.
\<close>

definition snapshot :: "queue \<Rightarrow> string list \<Rightarrow> PendingAction list" where
  "snapshot q keys = List.map_filter q keys"

definition enumerates :: "string list \<Rightarrow> queue \<Rightarrow> bool" where
  "enumerates keys q = (distinct keys \<and> set keys = dom q)"

text \<open>
  One run of \<^verbatim>\<open>executePendingActions\<close>: the new queue, and the actions handed to
  \<^verbatim>\<open>executeAction\<close> in the order of the calls.
\<close>

definition executePendingActions ::
  "(PendingAction \<Rightarrow> bool) \<Rightarrow> string list \<Rightarrow> queue \<Rightarrow> queue \<times> PendingAction list" where
  "executePendingActions executeAction keys q =
     (let actions = sort_by_priority (snapshot q keys)
      in (execute_loop executeAction actions q, actions))"

text \<open>
  The ticker of \<^verbatim>\<open>executeActions\<close> runs \<^verbatim>\<open>executePendingActions\<close> again and
  again.  A cycle is given by the outcome of the API calls and the enumeration order
  of that run; \<open>run_cycles\<close> returns the final queue and all calls made.
\<close>

type_synonym cycle = "(PendingAction \<Rightarrow> bool) \<times> string list"

fun run_cycles :: "cycle list \<Rightarrow> queue \<Rightarrow> queue \<times> PendingAction list" where
  "run_cycles [] q = (q, [])"
| "run_cycles ((executeAction, keys) # cs) q =
     (let (q', calls) = executePendingActions executeAction keys q;
          (q'', calls') = run_cycles cs q'
      in (q'', calls @ calls'))"

fun valid_cycles :: "cycle list \<Rightarrow> queue \<Rightarrow> bool" where
  "valid_cycles [] q = True"
| "valid_cycles ((executeAction, keys) # cs) q =
     (enumerates keys q \<and> valid_cycles cs (fst (executePendingActions executeAction keys q)))"

definition attempts_of :: "string \<Rightarrow> PendingAction list \<Rightarrow> nat" where
  "attempts_of actionID calls = length (filter (\<lambda>a. ID a = actionID) calls)"

text \<open>
  Every entry is stored under its own ID (\<^verbatim>\<open>a.pendingActions[action.ID] = action\<close>)
  and carries a retry count between 0 and 2.
\<close>

definition queue_ok :: "queue \<Rightarrow> bool" where
  "queue_ok q = (\<forall>k a. q k = Some a \<longrightarrow> ID a = k \<and> 0 \<le> RetryCount a \<and> RetryCount a < 3)"

text \<open>
  The invariant of the outer loop: every position below \<open>i\<close> holds a priority that is
  at least that of every later position.
\<close>

definition settled :: "nat \<Rightarrow> PendingAction list \<Rightarrow> bool" where
  "settled i xs =
     (\<forall>a b. a < i \<and> a < b \<and> b < length xs \<longrightarrow> Priority (xs ! b) \<le> Priority (xs ! a))"

text \<open>What one call of \<^verbatim>\<open>executeAction\<close> leaves in the queue under the action's ID.\<close>

definition outcome :: "(PendingAction \<Rightarrow> bool) \<Rightarrow> PendingAction \<Rightarrow> PendingAction option" where
  "outcome executeAction action =
     (if executeAction action then None
      else if RetryCount action + 1 < 3 then Some (action\<lparr>RetryCount := RetryCount action + 1\<rparr>)
      else None)"


text \<open>
  A scenario: one queued action whose API call fails in every cycle.  The fourth cycle
  finds the queue empty.
\<close>

definition stuck_action :: PendingAction where
  "stuck_action = \<lparr>ID = ''a1'', Type = ''adjust_wip_limits'', BoardID = ''b1'', Priority = 2,
     Data = Map.empty, CreatedAt = 0, RetryCount = 0\<rparr>"

definition failing_cycles :: "cycle list" where
  "failing_cycles =
     [(\<lambda>_. False, [''a1'']), (\<lambda>_. False, [''a1'']), (\<lambda>_. False, [''a1'']), (\<lambda>_. False, [])]"


section \<open>The allocator agent: from risk alerts to pending actions\<close>

text \<open>
  \<^verbatim>\<open>RiskAlert\<close> and \<^verbatim>\<open>WorkloadAnalysis\<close> as declared in the agent; the fields that
  share a name with a field of \<^verbatim>\<open>PendingAction\<close> carry the prefix \<open>Alert\<close>.
\<close>

record RiskAlert =
  AlertID :: string
  AlertType :: string
  AlertBoardID :: string
  Level :: string
  Score :: real
  AlertData :: gdata
  Timestamp :: int

record WorkloadAnalysis =
  UserID :: string
  Name :: string
  ActiveTasks :: int
  TotalStoryPoints :: int
  AvgCycleTime :: real
  Capacity :: real
  IsOverloaded :: bool

text \<open>The element type of \<^verbatim>\<open>teamPerformance\<close>, decoded from the analytics endpoint.\<close>

record TeamPerformance =
  PerfUserID :: string
  PerfName :: string
  CompletedTasks :: int
  PerfTotalStoryPoints :: int
  AverageCycleTime :: real
  PerfVelocity :: real

text \<open>
  A handler returns \<^verbatim>\<open>nil\<close> (\<open>Done\<close>, with the queue it leaves), returns an error
  (\<open>Failed\<close>), or panics on a failed type assertion (\<open>Panic\<close>): an assertion
  \<^verbatim>\<open>x.(string)\<close> without the comma-ok form panics when the interface value is
  \<^verbatim>\<open>nil\<close> (a missing key) or holds another type.
\<close>

datatype handled = Panic | Failed | Done queue

text \<open>The conversion \<^verbatim>\<open>int(f)\<close> of a \<^verbatim>\<open>float64\<close> drops the fraction.\<close>

definition go_int :: "real \<Rightarrow> int" where
  "go_int f = (if 0 \<le> f then \<lfloor>f\<rfloor> else \<lceil>f\<rceil>)"

text \<open>
  \<^verbatim>\<open>uuid.New().String()\<close> and \<^verbatim>\<open>time.Now()\<close> are the parameters \<open>newID\<close> and
  \<open>now\<close> of every handler.
\<close>

definition handleBottleneckAlert :: "string \<Rightarrow> int \<Rightarrow> RiskAlert \<Rightarrow> queue \<Rightarrow> handled" where
  "handleBottleneckAlert newID now alert q =
     (case AlertData alert ''columnId'' of
        Some (GString columnID) \<Rightarrow>
          (case AlertData alert ''wipLimit'' of
             Some (GFloat wipLimit) \<Rightarrow>
               Done (queueAction q
                 \<lparr>ID = newID, Type = ''adjust_wip_limits'', BoardID = AlertBoardID alert,
                  Priority = 2,
                  Data = [''columnId'' \<mapsto> GString columnID,
                          ''reason'' \<mapsto> GString ''bottleneck_detected'',
                          ''alertId'' \<mapsto> GString (AlertID alert),
                          ''newLimit'' \<mapsto> GInt (go_int wipLimit + 2)],
                  CreatedAt = now, RetryCount = 0\<rparr>)
           | _ \<Rightarrow> Panic)
      | _ \<Rightarrow> Panic)"

text \<open>
  \<^verbatim>\<open>analyzeWorkload\<close> fetches the team performance of the board over HTTP; the
  reply is the parameter \<open>reply\<close>, \<open>None\<close> when the request or the decoding
  fails.
\<close>

definition workload_of :: "TeamPerformance \<Rightarrow> WorkloadAnalysis" where
  "workload_of perf =
     \<lparr>UserID = PerfUserID perf, Name = PerfName perf, ActiveTasks = CompletedTasks perf,
      TotalStoryPoints = PerfTotalStoryPoints perf, AvgCycleTime = AverageCycleTime perf,
      Capacity = 1 - real_of_int (CompletedTasks perf) / 10,
      IsOverloaded = (CompletedTasks perf > 6 \<or> PerfTotalStoryPoints perf > 20)\<rparr>"

definition analyzeWorkload :: "TeamPerformance list option \<Rightarrow> WorkloadAnalysis list option" where
  "analyzeWorkload reply = map_option (map workload_of) reply"

subsection \<open>The target search of \<^verbatim>\<open>handleOverloadAlert\<close>\<close>

text \<open>
  \<^verbatim>\<open>
  var targetUser *WorkloadAnalysis
  for _, user := range analysis {
      if user.UserID != userID && !user.IsOverloaded {
          if targetUser == nil || user.ActiveTasks < targetUser.ActiveTasks {
              targetUser = &user
          }
      }
  }
  \<close>
  The module declares \<^verbatim>\<open>go 1.21\<close>.  In that language version the variable
  \<^verbatim>\<open>user\<close> of a \<^verbatim>\<open>range\<close> loop is one variable for the whole loop, assigned anew
  in every iteration, so \<^verbatim>\<open>&user\<close> is the same address each time.  The frame of the
  loop is therefore a store with the single cell \<open>user\<close>, and \<open>targetUser\<close> is
  either \<^verbatim>\<open>nil\<close> or the address of that cell; reading through the pointer reads the
  cell as it is at that moment.
\<close>

datatype wa_ptr = NilPtr | AddrUser

record frame =
  user :: WorkloadAnalysis
  targetUser :: wa_ptr

definition load :: "frame \<Rightarrow> wa_ptr \<Rightarrow> WorkloadAnalysis option" where
  "load fr p = (case p of NilPtr \<Rightarrow> None | AddrUser \<Rightarrow> Some (user fr))"

definition target_step :: "string \<Rightarrow> WorkloadAnalysis \<Rightarrow> frame \<Rightarrow> frame" where
  "target_step userID x fr =
     (let fr1 = fr\<lparr>user := x\<rparr>
      in if UserID (user fr1) \<noteq> userID \<and> \<not> IsOverloaded (user fr1)
         then (if (case load fr1 (targetUser fr1) of
                     None \<Rightarrow> True
                   | Some t \<Rightarrow> ActiveTasks (user fr1) < ActiveTasks t)
               then fr1\<lparr>targetUser := AddrUser\<rparr>
               else fr1)
         else fr1)"

fun target_loop :: "string \<Rightarrow> WorkloadAnalysis list \<Rightarrow> frame \<Rightarrow> frame" where
  "target_loop userID [] fr = fr"
| "target_loop userID (x # analysis) fr = target_loop userID analysis (target_step userID x fr)"

text \<open>Before the loop \<^verbatim>\<open>targetUser\<close> is \<^verbatim>\<open>nil\<close>; the cell holds the zero value.\<close>

definition zero_workload :: WorkloadAnalysis where
  "zero_workload = \<lparr>UserID = [], Name = [], ActiveTasks = 0, TotalStoryPoints = 0,
     AvgCycleTime = 0, Capacity = 0, IsOverloaded = False\<rparr>"

definition find_target :: "string \<Rightarrow> WorkloadAnalysis list \<Rightarrow> WorkloadAnalysis option" where
  "find_target userID analysis =
     (let fr = target_loop userID analysis \<lparr>user = zero_workload, targetUser = NilPtr\<rparr>
      in load fr (targetUser fr))"

definition handleOverloadAlert ::
  "string \<Rightarrow> int \<Rightarrow> (string \<Rightarrow> TeamPerformance list option) \<Rightarrow> RiskAlert \<Rightarrow> queue \<Rightarrow> handled" where
  "handleOverloadAlert newID now fetch alert q =
     (case AlertData alert ''userId'' of
        Some (GString userID) \<Rightarrow>
          (case analyzeWorkload (fetch (AlertBoardID alert)) of
             None \<Rightarrow> Failed
           | Some analysis \<Rightarrow>
               (case find_target userID analysis of
                  None \<Rightarrow> Done q
                | Some target \<Rightarrow>
                    Done (queueAction q
                      \<lparr>ID = newID, Type = ''redistribute_tasks'', BoardID = AlertBoardID alert,
                       Priority = 1,
                       Data = [''fromUserId'' \<mapsto> GString userID,
                               ''toUserId'' \<mapsto> GString (UserID target),
                               ''taskCount'' \<mapsto> GInt 2,
                               ''reason'' \<mapsto> GString ''workload_balancing'',
                               ''alertId'' \<mapsto> GString (AlertID alert)],
                       CreatedAt = now, RetryCount = 0\<rparr>)))
      | _ \<Rightarrow> Panic)"

definition handleDeadlineAlert :: "string \<Rightarrow> int \<Rightarrow> RiskAlert \<Rightarrow> queue \<Rightarrow> handled" where
  "handleDeadlineAlert newID now alert q =
     (case AlertData alert ''taskId'' of
        Some (GString taskID) \<Rightarrow>
          Done (queueAction q
            \<lparr>ID = newID, Type = ''reassign_overdue'', BoardID = AlertBoardID alert,
             Priority = 3,
             Data = [''taskId'' \<mapsto> GString taskID,
                     ''reason'' \<mapsto> GString ''deadline_risk'',
                     ''alertId'' \<mapsto> GString (AlertID alert)],
             CreatedAt = now, RetryCount = 0\<rparr>)
      | _ \<Rightarrow> Panic)"

definition handleWIPViolationAlert :: "string \<Rightarrow> int \<Rightarrow> RiskAlert \<Rightarrow> queue \<Rightarrow> handled" where
  "handleWIPViolationAlert newID now alert q =
     (case AlertData alert ''columnId'' of
        Some (GString columnID) \<Rightarrow>
          Done (queueAction q
            \<lparr>ID = newID, Type = ''enforce_wip_limits'', BoardID = AlertBoardID alert,
             Priority = 2,
             Data = [''columnId'' \<mapsto> GString columnID,
                     ''reason'' \<mapsto> GString ''wip_violation'',
                     ''alertId'' \<mapsto> GString (AlertID alert)],
             CreatedAt = now, RetryCount = 0\<rparr>)
      | _ \<Rightarrow> Panic)"

definition handleRiskAlert ::
  "string \<Rightarrow> int \<Rightarrow> (string \<Rightarrow> TeamPerformance list option) \<Rightarrow> RiskAlert \<Rightarrow> queue \<Rightarrow> handled" where
  "handleRiskAlert newID now fetch alert q =
     (if AlertType alert = ''bottleneck'' then handleBottleneckAlert newID now alert q
      else if AlertType alert = ''overload'' then handleOverloadAlert newID now fetch alert q
      else if AlertType alert = ''deadline_risk'' then handleDeadlineAlert newID now alert q
      else if AlertType alert = ''wip_violation'' then handleWIPViolationAlert newID now alert q
      else Done q)"

subsection \<open>Eligibility, and the target the specification describes\<close>

definition eligible :: "string \<Rightarrow> WorkloadAnalysis \<Rightarrow> bool" where
  "eligible userID x = (UserID x \<noteq> userID \<and> \<not> IsOverloaded x)"

text \<open>
  The search in the words of the specification: among the users other than the
  overloaded one that are not overloaded themselves, the one with the least
  active-task count, the first one encountered winning ties.
\<close>

fun spec_target :: "string \<Rightarrow> WorkloadAnalysis list \<Rightarrow> WorkloadAnalysis option" where
  "spec_target userID [] = None"
| "spec_target userID (x # analysis) =
     (case spec_target userID analysis of
        None \<Rightarrow> if eligible userID x then Some x else None
      | Some t \<Rightarrow> if eligible userID x \<and> ActiveTasks x \<le> ActiveTasks t then Some x else Some t)"

subsection \<open>Example alerts and actions\<close>

definition alice :: TeamPerformance where
  "alice = \<lparr>PerfUserID = ''alice'', PerfName = ''Alice'', CompletedTasks = 1,
     PerfTotalStoryPoints = 3, AverageCycleTime = 2, PerfVelocity = 3\<rparr>"

definition bob :: TeamPerformance where
  "bob = \<lparr>PerfUserID = ''bob'', PerfName = ''Bob'', CompletedTasks = 5,
     PerfTotalStoryPoints = 13, AverageCycleTime = 2, PerfVelocity = 13\<rparr>"

definition carol :: TeamPerformance where
  "carol = \<lparr>PerfUserID = ''carol'', PerfName = ''Carol'', CompletedTasks = 9,
     PerfTotalStoryPoints = 30, AverageCycleTime = 2, PerfVelocity = 30\<rparr>"

definition overload_alert :: RiskAlert where
  "overload_alert = \<lparr>AlertID = ''alert-1'', AlertType = ''overload'', AlertBoardID = ''board-1'',
     Level = ''high'', Score = 0.9, AlertData = [''userId'' \<mapsto> GString ''carol''],
     Timestamp = 0\<rparr>"

definition deadline_alert :: RiskAlert where
  "deadline_alert = \<lparr>AlertID = ''alert-2'', AlertType = ''deadline_risk'',
     AlertBoardID = ''board-1'', Level = ''medium'', Score = 0.5,
     AlertData = [''taskId'' \<mapsto> GString ''task-7''], Timestamp = 0\<rparr>"

text \<open>The analytics endpoint answers with Alice, Bob and Carol, in this order.\<close>

definition team_reply :: "string \<Rightarrow> TeamPerformance list option" where
  "team_reply boardID = Some [alice, bob, carol]"

text \<open>A second answer: Carol first, then Alice.\<close>

definition pair_reply :: "string \<Rightarrow> TeamPerformance list option" where
  "pair_reply boardID = Some [carol, alice]"

definition overload_action :: PendingAction where
  "overload_action =
     \<lparr>ID = ''act-1'', Type = ''redistribute_tasks'', BoardID = ''board-1'', Priority = 1,
      Data = [''fromUserId'' \<mapsto> GString ''carol'',
              ''toUserId'' \<mapsto> GString ''alice'',
              ''taskCount'' \<mapsto> GInt 2,
              ''reason'' \<mapsto> GString ''workload_balancing'',
              ''alertId'' \<mapsto> GString ''alert-1''],
      CreatedAt = 0, RetryCount = 0\<rparr>"

text \<open>The action that names Carol as the receiver of her own tasks.\<close>

definition misdirected_action :: PendingAction where
  "misdirected_action =
     \<lparr>ID = ''act-1'', Type = ''redistribute_tasks'', BoardID = ''board-1'', Priority = 1,
      Data = [''fromUserId'' \<mapsto> GString ''carol'',
              ''toUserId'' \<mapsto> GString ''carol'',
              ''taskCount'' \<mapsto> GInt 2,
              ''reason'' \<mapsto> GString ''workload_balancing'',
              ''alertId'' \<mapsto> GString ''alert-1''],
      CreatedAt = 0, RetryCount = 0\<rparr>"

definition deadline_action :: PendingAction where
  "deadline_action =
     \<lparr>ID = ''act-2'', Type = ''reassign_overdue'', BoardID = ''board-1'', Priority = 3,
      Data = [''taskId'' \<mapsto> GString ''task-7'',
              ''reason'' \<mapsto> GString ''deadline_risk'',
              ''alertId'' \<mapsto> GString ''alert-2''],
      CreatedAt = 1, RetryCount = 0\<rparr>"

text \<open>Alerts as a producer may send them: one with an empty \<^verbatim>\<open>data\<close> object, one
  whose \<^verbatim>\<open>wipLimit\<close> is a JSON string, and a deadline alert without \<^verbatim>\<open>taskId\<close>.\<close>

definition bare_bottleneck_alert :: RiskAlert where
  "bare_bottleneck_alert = \<lparr>AlertID = ''alert-3'', AlertType = ''bottleneck'',
     AlertBoardID = ''board-1'', Level = ''high'', Score = 0.8, AlertData = Map.empty,
     Timestamp = 0\<rparr>"

definition text_limit_alert :: RiskAlert where
  "text_limit_alert = \<lparr>AlertID = ''alert-4'', AlertType = ''bottleneck'',
     AlertBoardID = ''board-1'', Level = ''high'', Score = 0.8,
     AlertData = [''columnId'' \<mapsto> GString ''col-1'', ''wipLimit'' \<mapsto> GString ''3''],
     Timestamp = 0\<rparr>"

definition bare_deadline_alert :: RiskAlert where
  "bare_deadline_alert = \<lparr>AlertID = ''alert-5'', AlertType = ''deadline_risk'',
     AlertBoardID = ''board-1'', Level = ''high'', Score = 0.7, AlertData = Map.empty,
     Timestamp = 0\<rparr>"

section \<open>The message bus\<close>

text \<open>
  The envelope \<^verbatim>\<open>messaging.Event\<close>; its fields carry the prefix \<open>Event\<close>.
\<close>

record Event =
  EventID :: string
  EventType :: string
  EventBoardID :: string
  EventUserID :: string
  EventData :: gdata
  EventTimestamp :: int

text \<open>
  The answers a consumer gives to a delivery: \<^verbatim>\<open>d.Ack(multiple)\<close> and
  \<^verbatim>\<open>d.Nack(multiple, requeue)\<close>.
\<close>

datatype acknowledgement = Ack bool | Nack bool bool

text \<open>
  The body of the loop \<^verbatim>\<open>for d := range msgs\<close> in \<^verbatim>\<open>ConsumeEvents\<close>.
  \<^verbatim>\<open>json.Unmarshal\<close> is the parameter \<open>unmarshal\<close> (\<open>None\<close> when it returns an
  error); the handler works on a state of its own and returns an error (\<open>Some\<close>)
  or \<^verbatim>\<open>nil\<close> (\<open>None\<close>).
\<close>

definition consume_one ::
  "(string \<Rightarrow> Event option) \<Rightarrow> (Event \<Rightarrow> 's \<Rightarrow> string option \<times> 's) \<Rightarrow> string \<Rightarrow> 's
     \<Rightarrow> acknowledgement \<times> 's" where
  "consume_one unmarshal handler body s =
     (case unmarshal body of
        None \<Rightarrow> (Nack False False, s)
      | Some event \<Rightarrow>
          (case handler event s of
             (Some err, s') \<Rightarrow> (Nack False True, s')
           | (None, s') \<Rightarrow> (Ack False, s')))"

text \<open>The loop over the deliveries that arrive on the channel, with the answers given.\<close>

fun consume_loop ::
  "(string \<Rightarrow> Event option) \<Rightarrow> (Event \<Rightarrow> 's \<Rightarrow> string option \<times> 's) \<Rightarrow> string list \<Rightarrow> 's
     \<Rightarrow> acknowledgement list \<times> 's" where
  "consume_loop unmarshal handler [] s = ([], s)"
| "consume_loop unmarshal handler (body # msgs) s =
     (let (a, s') = consume_one unmarshal handler body s;
          (as, s'') = consume_loop unmarshal handler msgs s'
      in (a # as, s''))"

text \<open>
  The queue of the broker, as far as the answers act on it: the broker delivers the
  message at the head; an acknowledged message and a message rejected without requeue
  leave the queue; a message rejected with \<^verbatim>\<open>requeue=true\<close> goes back into the
  queue, at a place the broker chooses (\<open>requeue\<close>).  \<open>deliver n\<close> makes at
  most \<open>n\<close> deliveries and returns the log of deliveries with their answers, the
  queue that is left and the consumer's state.
\<close>

fun deliver ::
  "(string \<Rightarrow> Event option) \<Rightarrow> (Event \<Rightarrow> 's \<Rightarrow> string option \<times> 's) \<Rightarrow>
   (string \<Rightarrow> string list \<Rightarrow> string list) \<Rightarrow> nat \<Rightarrow> string list \<Rightarrow> 's
     \<Rightarrow> (string \<times> acknowledgement) list \<times> string list \<times> 's" where
  "deliver unmarshal handler requeue 0 queue s = ([], queue, s)"
| "deliver unmarshal handler requeue (Suc n) [] s = ([], [], s)"
| "deliver unmarshal handler requeue (Suc n) (body # queue) s =
     (let (a, s') = consume_one unmarshal handler body s;
          queue' = (case a of Nack multiple True \<Rightarrow> requeue body queue | _ \<Rightarrow> queue);
          (log, queue'', s'') = deliver unmarshal handler requeue n queue' s'
      in ((body, a) # log, queue'', s''))"

text \<open>
  An example: bodies are decoded by \<open>toy_unmarshal\<close>, which accepts the two
  bodies \<open>ok\<close> and \<open>bad-board\<close>; the handler counts the events it has seen and
  fails on the event of type \<open>broken\<close>.
\<close>

definition toy_event :: "string \<Rightarrow> Event" where
  "toy_event ty = \<lparr>EventID = ''e1'', EventType = ty, EventBoardID = ''board-1'',
     EventUserID = ''user-1'', EventData = Map.empty, EventTimestamp = 0\<rparr>"

definition toy_unmarshal :: "string \<Rightarrow> Event option" where
  "toy_unmarshal body =
     (if body = ''ok'' then Some (toy_event ''task.created'')
      else if body = ''bad-board'' then Some (toy_event ''broken'')
      else None)"

definition toy_handler :: "Event \<Rightarrow> nat \<Rightarrow> string option \<times> nat" where
  "toy_handler event seen =
     (if EventType event = ''broken'' then (Some ''failed to store event'', seen + 1)
      else (None, seen + 1))"

section \<open>The event processor\<close>

text \<open>
  A \<^verbatim>\<open>uuid.UUID\<close> is represented by its canonical text.  \<^verbatim>\<open>uuid.Parse\<close> belongs to
  a library; it is the parameter \<open>parse\<close> of every function that calls it, with
  \<open>None\<close> for an error.
\<close>

type_synonym uuid = string

text \<open>
  Modelled from the spec: the package \<^verbatim>\<open>kanopt/internal/models\<close> is not among the
  sources, so \<^verbatim>\<open>models.Column\<close> carries the fields of the specification's
  \<^verbatim>\<open>Column\<close> \<open>{id, boardId, name, position, wipLimit}\<close>, under the names the
  processor uses.  Times are seconds since the Unix epoch, in UTC.
\<close>

record Column =
  ColumnID :: uuid
  ColumnBoardID :: uuid
  ColumnName :: string
  ColumnPosition :: int
  WIPLimit :: int

text \<open>
  Modelled from the spec: \<^verbatim>\<open>models.Task\<close> is not among the sources; of the
  specification's \<^verbatim>\<open>Task\<close> the record keeps the identifier, the board, the column,
  the position, the story points and the two times that the processor and the task
  handlers read or write.
\<close>

record Task =
  TaskID :: uuid
  TaskBoardID :: uuid
  TaskColumnID :: uuid
  Position :: int
  StoryPoints :: int
  TaskCreatedAt :: int
  CompletedAt :: "int option"

text \<open>
  Modelled from the spec: \<^verbatim>\<open>models.RiskPrediction\<close> is not among the sources; the
  fields are those that \<^verbatim>\<open>analyzeBottlenecks\<close> sets, which are the specification's
  \<open>{boardId, type, level, score, description, data}\<close>.
\<close>

record RiskPrediction =
  RiskBoardID :: uuid
  RiskType :: string
  RiskLevel :: string
  RiskScore :: real
  Description :: string
  RiskData :: gdata

text \<open>
  Modelled from the spec: \<^verbatim>\<open>models.VelocityMetric\<close> is not among the sources; the
  fields are those that the processor sets, the specification's
  \<open>{velocity, completedCount, totalPoints, cycleTime, throughput}\<close> per board and
  sprint week.
\<close>

record VelocityMetric =
  MetricBoardID :: uuid
  SprintWeek :: int
  Velocity :: real
  Completed :: int
  TotalPoints :: int
  Throughput :: int
  CycleTime :: real

text \<open>
  Modelled from the spec: \<^verbatim>\<open>models.Event\<close> is not among the sources; the fields
  are those that \<^verbatim>\<open>storeEvent\<close> sets.
\<close>

record EventRow =
  RowBoardID :: uuid
  RowType :: string
  RowData :: gdata
  RowUserID :: uuid
  RowTimestamp :: int

text \<open>
  The database is a record of tables, each a list of rows.  Its operations are
  modelled on this store and succeed; the errors a database driver may return are
  outside the model.  Integer fields are unbounded.
\<close>

record database =
  db_events :: "EventRow list"
  db_columns :: "Column list"
  db_tasks :: "Task list"
  db_risks :: "RiskPrediction list"
  db_metrics :: "VelocityMetric list"

datatype perr = InvalidUUID | StoreFailed perr

subsection \<open>Time\<close>

text \<open>
  \<^verbatim>\<open>now.Weekday()\<close> counts from Sunday = 0; the epoch fell on a Thursday.
  \<^verbatim>\<open>now.AddDate(0, 0, d)\<close> moves by whole days and keeps the time of day.
  \<^verbatim>\<open>now.ISOWeek()\<close> is the parameter \<open>iso_week\<close> of the functions that call
  it.
\<close>

definition Weekday :: "int \<Rightarrow> int" where
  "Weekday t = (t div 86400 + 4) mod 7"

definition AddDays :: "int \<Rightarrow> int \<Rightarrow> int" where
  "AddDays t d = t + 86400 * d"

subsection \<open>Printing integers\<close>

text \<open>The verb \<^verbatim>\<open>%d\<close> of \<^verbatim>\<open>fmt.Sprintf\<close>.\<close>

fun digits :: "nat \<Rightarrow> string" where
  "digits n =
     (if n < 10 then [''0123456789'' ! n]
      else digits (n div 10) @ [''0123456789'' ! (n mod 10)])"

declare digits.simps [simp del]

definition fmt_d :: "int \<Rightarrow> string" where
  "fmt_d i = (if i < 0 then ''-'' @ digits (nat (- i)) else digits (nat i))"

subsection \<open>\<^verbatim>\<open>storeEvent\<close>\<close>

definition storeEvent :: "(string \<Rightarrow> uuid option) \<Rightarrow> Event \<Rightarrow> database \<Rightarrow> perr + database" where
  "storeEvent parse event db =
     (case parse (EventBoardID event) of
        None \<Rightarrow> Inl InvalidUUID
      | Some boardID \<Rightarrow>
          (case parse (EventUserID event) of
             None \<Rightarrow> Inl InvalidUUID
           | Some userID \<Rightarrow>
               Inr (db\<lparr>db_events := db_events db @
                     [\<lparr>RowBoardID = boardID, RowType = EventType event,
                       RowData = EventData event, RowUserID = userID,
                       RowTimestamp = EventTimestamp event\<rparr>]\<rparr>)))"

subsection \<open>\<^verbatim>\<open>updateVelocityMetrics\<close>\<close>

text \<open>
  The query \<^verbatim>\<open>board_id = ? AND completed_at >= ?\<close>; a row without completion time
  does not satisfy the comparison.
\<close>

definition completed_since :: "uuid \<Rightarrow> int \<Rightarrow> Task list \<Rightarrow> Task list" where
  "completed_since boardID weekStart tasks =
     filter (\<lambda>t. TaskBoardID t = boardID \<and>
                 (case CompletedAt t of None \<Rightarrow> False | Some c \<Rightarrow> weekStart \<le> c)) tasks"

text \<open>
  The metric that \<^verbatim>\<open>updateVelocityMetrics\<close> builds.  The struct has no primary key
  set, so \<^verbatim>\<open>db.Save\<close> inserts it.
\<close>

definition velocity_metric :: "(int \<Rightarrow> int) \<Rightarrow> int \<Rightarrow> uuid \<Rightarrow> Task list \<Rightarrow> VelocityMetric" where
  "velocity_metric iso_week now boardID tasks =
     (let weekStart = AddDays now (- Weekday now);
          completedTasks = completed_since boardID weekStart tasks;
          totalPoints = sum_list (map StoryPoints completedTasks);
          velocity = real_of_int totalPoints / real (length completedTasks + 1);
          week = iso_week now
      in \<lparr>MetricBoardID = boardID, SprintWeek = week, Velocity = velocity,
          Completed = int (length completedTasks), TotalPoints = totalPoints,
          Throughput = int (length completedTasks), CycleTime = 0\<rparr>)"

definition updateVelocityMetrics ::
  "(string \<Rightarrow> uuid option) \<Rightarrow> (int \<Rightarrow> int) \<Rightarrow> int \<Rightarrow> string \<Rightarrow> database \<Rightarrow> perr + database" where
  "updateVelocityMetrics parse iso_week now boardIDStr db =
     (case parse boardIDStr of
        None \<Rightarrow> Inl InvalidUUID
      | Some boardID \<Rightarrow>
          Inr (db\<lparr>db_metrics := db_metrics db @
                [velocity_metric iso_week now boardID (db_tasks db)]\<rparr>))"

definition updateCompletionMetrics ::
  "(string \<Rightarrow> uuid option) \<Rightarrow> (int \<Rightarrow> int) \<Rightarrow> int \<Rightarrow> string \<Rightarrow> database \<Rightarrow> perr + database" where
  "updateCompletionMetrics parse iso_week now boardIDStr db =
     updateVelocityMetrics parse iso_week now boardIDStr db"

subsection \<open>\<^verbatim>\<open>updateCycleTimeMetrics\<close>\<close>

text \<open>
  The mean, in days, of \<^verbatim>\<open>CompletedAt - CreatedAt\<close> over the completed tasks of the
  board, written into the metric of the current week: the first row of that board and
  week is updated in place, and a new row is inserted when there is none.
\<close>

definition cycle_days :: "Task \<Rightarrow> real" where
  "cycle_days t =
     (case CompletedAt t of
        None \<Rightarrow> 0
      | Some c \<Rightarrow> real_of_int (c - TaskCreatedAt t) / 3600 / 24)"

fun save_cycle_time :: "uuid \<Rightarrow> int \<Rightarrow> real \<Rightarrow> VelocityMetric list \<Rightarrow> VelocityMetric list" where
  "save_cycle_time boardID week avg [] =
     [\<lparr>MetricBoardID = boardID, SprintWeek = week, Velocity = 0, Completed = 0,
       TotalPoints = 0, Throughput = 0, CycleTime = avg\<rparr>]"
| "save_cycle_time boardID week avg (m # ms) =
     (if MetricBoardID m = boardID \<and> SprintWeek m = week
      then m\<lparr>CycleTime := avg\<rparr> # ms
      else m # save_cycle_time boardID week avg ms)"

definition updateCycleTimeMetrics ::
  "(string \<Rightarrow> uuid option) \<Rightarrow> (int \<Rightarrow> int) \<Rightarrow> int \<Rightarrow> string \<Rightarrow> database \<Rightarrow> perr + database" where
  "updateCycleTimeMetrics parse iso_week now boardIDStr db =
     (case parse boardIDStr of
        None \<Rightarrow> Inl InvalidUUID
      | Some boardID \<Rightarrow>
          (let tasks = filter (\<lambda>t. TaskBoardID t = boardID \<and> CompletedAt t \<noteq> None) (db_tasks db)
           in if length tasks = 0 then Inr db
              else (let totalCycleTime = sum_list (map cycle_days tasks);
                        avgCycleTime = totalCycleTime / real (length tasks);
                        week = iso_week now
                    in Inr (db\<lparr>db_metrics :=
                              save_cycle_time boardID week avgCycleTime (db_metrics db)\<rparr>))))"

subsection \<open>\<^verbatim>\<open>analyzeBottlenecks\<close>\<close>

text \<open>
  \<^verbatim>\<open>Preload("Tasks")\<close> fills \<^verbatim>\<open>column.Tasks\<close> with the tasks whose column is that
  column.
\<close>

definition column_tasks :: "database \<Rightarrow> Column \<Rightarrow> Task list" where
  "column_tasks db column = filter (\<lambda>t. TaskColumnID t = ColumnID column) (db_tasks db)"

definition bottleneck_risk :: "uuid \<Rightarrow> Column \<Rightarrow> Task list \<Rightarrow> RiskPrediction" where
  "bottleneck_risk boardID column tasks =
     \<lparr>RiskBoardID = boardID, RiskType = ''bottleneck'', RiskLevel = ''high'', RiskScore = 0.8,
      Description = ''Column '' @ [CHR 0x27] @ ColumnName column @ [CHR 0x27] @
        '' exceeds WIP limit: '' @ fmt_d (int (length tasks)) @ ''/'' @
        fmt_d (WIPLimit column) @ '' tasks'',
      RiskData = [''columnId'' \<mapsto> GString (ColumnID column),
                  ''columnName'' \<mapsto> GString (ColumnName column),
                  ''taskCount'' \<mapsto> GInt (int (length tasks)),
                  ''wipLimit'' \<mapsto> GInt (WIPLimit column),
                  ''overflowBy'' \<mapsto> GInt (int (length tasks) - WIPLimit column)]\<rparr>"

fun bottleneck_loop :: "uuid \<Rightarrow> Column list \<Rightarrow> database \<Rightarrow> database" where
  "bottleneck_loop boardID [] db = db"
| "bottleneck_loop boardID (column # columns) db =
     bottleneck_loop boardID columns
       (if WIPLimit column > 0 \<and> int (length (column_tasks db column)) > WIPLimit column
        then db\<lparr>db_risks := db_risks db @
               [bottleneck_risk boardID column (column_tasks db column)]\<rparr>
        else db)"

definition analyzeBottlenecks ::
  "(string \<Rightarrow> uuid option) \<Rightarrow> string \<Rightarrow> database \<Rightarrow> perr + database" where
  "analyzeBottlenecks parse boardIDStr db =
     (case parse boardIDStr of
        None \<Rightarrow> Inl InvalidUUID
      | Some boardID \<Rightarrow>
          Inr (bottleneck_loop boardID
                 (filter (\<lambda>c. ColumnBoardID c = boardID) (db_columns db)) db))"

definition checkWIPLimits ::
  "(string \<Rightarrow> uuid option) \<Rightarrow> string \<Rightarrow> database \<Rightarrow> perr + database" where
  "checkWIPLimits parse boardIDStr db = analyzeBottlenecks parse boardIDStr db"

text \<open>The condition of the loop body, for a column of the board.\<close>

definition over_limit :: "database \<Rightarrow> Column \<Rightarrow> bool" where
  "over_limit db c = (WIPLimit c > 0 \<and> int (length (column_tasks db c)) > WIPLimit c)"


subsection \<open>\<^verbatim>\<open>initializeDefaultColumns\<close>\<close>

text \<open>
  The identifiers of the new rows are given by the parameter \<open>new_id\<close>, one for
  each of the five rows.
\<close>

definition defaultColumns :: "(nat \<Rightarrow> uuid) \<Rightarrow> uuid \<Rightarrow> Column list" where
  "defaultColumns new_id boardID =
     [\<lparr>ColumnID = new_id 0, ColumnBoardID = boardID, ColumnName = ''Backlog'',
       ColumnPosition = 0, WIPLimit = 0\<rparr>,
      \<lparr>ColumnID = new_id 1, ColumnBoardID = boardID, ColumnName = ''To Do'',
       ColumnPosition = 1, WIPLimit = 5\<rparr>,
      \<lparr>ColumnID = new_id 2, ColumnBoardID = boardID, ColumnName = ''In Progress'',
       ColumnPosition = 2, WIPLimit = 3\<rparr>,
      \<lparr>ColumnID = new_id 3, ColumnBoardID = boardID, ColumnName = ''Review'',
       ColumnPosition = 3, WIPLimit = 2\<rparr>,
      \<lparr>ColumnID = new_id 4, ColumnBoardID = boardID, ColumnName = ''Done'',
       ColumnPosition = 4, WIPLimit = 0\<rparr>]"

definition initializeDefaultColumns ::
  "(string \<Rightarrow> uuid option) \<Rightarrow> (nat \<Rightarrow> uuid) \<Rightarrow> string \<Rightarrow> database \<Rightarrow> perr + database" where
  "initializeDefaultColumns parse new_id boardIDStr db =
     (case parse boardIDStr of
        None \<Rightarrow> Inl InvalidUUID
      | Some boardID \<Rightarrow>
          (let count = length (filter (\<lambda>c. ColumnBoardID c = boardID) (db_columns db))
           in if count > 0 then Inr db
              else Inr (db\<lparr>db_columns := db_columns db @ defaultColumns new_id boardID\<rparr>)))"

subsection \<open>The handlers and the dispatch of \<^verbatim>\<open>handleEvent\<close>\<close>

text \<open>
  What the processor takes from its surroundings: the UUID parser, the ISO week of
  the clock, the clock, and the identifiers of new column rows.
\<close>

record env =
  parse_uuid :: "string \<Rightarrow> uuid option"
  iso_week_of :: "int \<Rightarrow> int"
  clock :: int
  column_ids :: "nat \<Rightarrow> uuid"

definition handleTaskCreated :: "env \<Rightarrow> Event \<Rightarrow> database \<Rightarrow> perr + database" where
  "handleTaskCreated e event db =
     updateVelocityMetrics (parse_uuid e) (iso_week_of e) (clock e) (EventBoardID event) db"

definition handleTaskUpdated :: "env \<Rightarrow> Event \<Rightarrow> database \<Rightarrow> perr + database" where
  "handleTaskUpdated e event db =
     (case EventData event ''status'' of
        Some (GString status) \<Rightarrow>
          if status = ''completed''
          then updateCompletionMetrics (parse_uuid e) (iso_week_of e) (clock e) (EventBoardID event) db
          else Inr db
      | _ \<Rightarrow> Inr db)"

definition handleTaskMoved :: "env \<Rightarrow> Event \<Rightarrow> database \<Rightarrow> perr + database" where
  "handleTaskMoved e event db =
     (case updateCycleTimeMetrics (parse_uuid e) (iso_week_of e) (clock e) (EventBoardID event) db of
        Inl err \<Rightarrow> Inl err
      | Inr db' \<Rightarrow> analyzeBottlenecks (parse_uuid e) (EventBoardID event) db')"

definition handleTaskDeleted :: "env \<Rightarrow> Event \<Rightarrow> database \<Rightarrow> perr + database" where
  "handleTaskDeleted e event db =
     updateVelocityMetrics (parse_uuid e) (iso_week_of e) (clock e) (EventBoardID event) db"

definition handleBoardCreated :: "env \<Rightarrow> Event \<Rightarrow> database \<Rightarrow> perr + database" where
  "handleBoardCreated e event db =
     initializeDefaultColumns (parse_uuid e) (column_ids e) (EventBoardID event) db"

definition handleColumnUpdated :: "env \<Rightarrow> Event \<Rightarrow> database \<Rightarrow> perr + database" where
  "handleColumnUpdated e event db = checkWIPLimits (parse_uuid e) (EventBoardID event) db"

definition handleEvent :: "env \<Rightarrow> Event \<Rightarrow> database \<Rightarrow> perr + database" where
  "handleEvent e event db =
     (case storeEvent (parse_uuid e) event db of
        Inl err \<Rightarrow> Inl (StoreFailed err)
      | Inr db' \<Rightarrow>
          if EventType event = ''task.created'' then handleTaskCreated e event db'
          else if EventType event = ''task.updated'' then handleTaskUpdated e event db'
          else if EventType event = ''task.moved'' then handleTaskMoved e event db'
          else if EventType event = ''task.deleted'' then handleTaskDeleted e event db'
          else if EventType event = ''board.created'' then handleBoardCreated e event db'
          else if EventType event = ''board.updated'' then Inr db'
          else if EventType event = ''column.created'' then Inr db'
          else if EventType event = ''column.updated'' then handleColumnUpdated e event db'
          else Inr db')"

text \<open>
  The same event delivered \<open>n\<close> times in a row, each delivery with the clock and
  the row identifiers of its moment (\<open>envs\<close>); an error ends the run.
\<close>

fun redeliver :: "(nat \<Rightarrow> env) \<Rightarrow> nat \<Rightarrow> Event \<Rightarrow> database \<Rightarrow> perr + database" where
  "redeliver envs 0 event db = Inr db"
| "redeliver envs (Suc n) event db =
     (case redeliver envs n event db of
        Inl err \<Rightarrow> Inl err
      | Inr db' \<Rightarrow> handleEvent (envs n) event db')"

subsection \<open>The velocity in the words of the specification\<close>

text \<open>
  ISO weeks run from Monday to Sunday; \<open>iso_week_index\<close> numbers them from the
  week of the epoch.  The velocity as the specification words it: the story points of
  the board's tasks completed in the ISO week of \<open>now\<close>, divided by their number
  plus one.
\<close>

definition iso_week_index :: "int \<Rightarrow> int" where
  "iso_week_index t = (t div 86400 + 3) div 7"

definition spec_velocity :: "int \<Rightarrow> uuid \<Rightarrow> Task list \<Rightarrow> real" where
  "spec_velocity now boardID tasks =
     (let completedTasks =
            filter (\<lambda>t. TaskBoardID t = boardID \<and>
                        (case CompletedAt t of
                           None \<Rightarrow> False
                         | Some c \<Rightarrow> iso_week_index c = iso_week_index now)) tasks
      in real_of_int (sum_list (map StoryPoints completedTasks)) /
           real (length completedTasks + 1))"

subsection \<open>Example boards\<close>

text \<open>
  A board whose column \<open>In Progress\<close> has WIP limit 3 and holds four tasks, none
  of them completed.
\<close>

definition wip_column :: Column where
  "wip_column = \<lparr>ColumnID = ''col-2'', ColumnBoardID = ''board-1'', ColumnName = ''In Progress'',
     ColumnPosition = 2, WIPLimit = 3\<rparr>"

definition open_task :: "string \<Rightarrow> int \<Rightarrow> Task" where
  "open_task tid pos = \<lparr>TaskID = tid, TaskBoardID = ''board-1'', TaskColumnID = ''col-2'',
     Position = pos, StoryPoints = 3, TaskCreatedAt = 0, CompletedAt = None\<rparr>"

definition crowded_db :: database where
  "crowded_db = \<lparr>db_events = [], db_columns = [wip_column],
     db_tasks = [open_task ''t0'' 0, open_task ''t1'' 1, open_task ''t2'' 2, open_task ''t3'' 3],
     db_risks = [], db_metrics = []\<rparr>"

definition plain_env :: env where
  "plain_env = \<lparr>parse_uuid = Some, iso_week_of = (\<lambda>t. 1), clock = 1704628800,
     column_ids = (\<lambda>i. ''new-col-'' @ digits i)\<rparr>"

definition moved_event :: Event where
  "moved_event = \<lparr>EventID = ''e-1'', EventType = ''task.moved'', EventBoardID = ''board-1'',
     EventUserID = ''user-1'', EventData = Map.empty, EventTimestamp = 1704628800\<rparr>"

text \<open>
  Sunday 7 January 2024, 12:00 UTC, and a task of five story points completed on
  Saturday 6 January 2024, 10:00 UTC: both lie in the ISO week that began on Monday
  1 January 2024.  \<open>saturday_noon\<close> is 12:00 UTC on that Saturday.
\<close>

definition sunday_noon :: int where
  "sunday_noon = 1704628800"

definition saturday_task :: Task where
  "saturday_task = \<lparr>TaskID = ''t9'', TaskBoardID = ''board-1'', TaskColumnID = ''col-4'',
     Position = 0, StoryPoints = 5, TaskCreatedAt = 1704067200, CompletedAt = Some 1704535200\<rparr>"

definition saturday_noon :: int where
  "saturday_noon = 1704542400"

text \<open>
  Wednesday 10 January 2024, 15:00 UTC, and the tasks of that moment: a task of five
  story points completed on Sunday 7 January 2024, 15:30 UTC, the last day of the ISO
  week before; a task of another board completed at the same time; a task that is not
  completed; and a task of one story point completed on that Sunday at 15:00 sharp.
\<close>

definition wednesday_afternoon :: int where
  "wednesday_afternoon = 1704898800"

definition sunday_task :: Task where
  "sunday_task = \<lparr>TaskID = ''t8'', TaskBoardID = ''board-1'', TaskColumnID = ''col-4'',
     Position = 1, StoryPoints = 5, TaskCreatedAt = 1704067200, CompletedAt = Some 1704641400\<rparr>"

definition foreign_task :: Task where
  "foreign_task = \<lparr>TaskID = ''t7'', TaskBoardID = ''board-2'', TaskColumnID = ''col-9'',
     Position = 0, StoryPoints = 8, TaskCreatedAt = 1704067200, CompletedAt = Some 1704641400\<rparr>"

definition pending_task :: Task where
  "pending_task = \<lparr>TaskID = ''t6'', TaskBoardID = ''board-1'', TaskColumnID = ''col-2'',
     Position = 0, StoryPoints = 13, TaskCreatedAt = 1704067200, CompletedAt = None\<rparr>"

definition boundary_task :: Task where
  "boundary_task = \<lparr>TaskID = ''t5'', TaskBoardID = ''board-1'', TaskColumnID = ''col-4'',
     Position = 2, StoryPoints = 1, TaskCreatedAt = 1704067200, CompletedAt = Some 1704639600\<rparr>"

definition midweek_tasks :: "Task list" where
  "midweek_tasks = [sunday_task, foreign_task, pending_task, boundary_task]"

definition weekend_db :: database where
  "weekend_db = \<lparr>db_events = [], db_columns = [], db_tasks = [saturday_task],
     db_risks = [], db_metrics = []\<rparr>"

definition created_event :: Event where
  "created_event = \<lparr>EventID = ''e-2'', EventType = ''board.created'', EventBoardID = ''board-1'',
     EventUserID = ''user-1'', EventData = Map.empty, EventTimestamp = 1704628800\<rparr>"

definition empty_db :: database where
  "empty_db = \<lparr>db_events = [], db_columns = [], db_tasks = [], db_risks = [], db_metrics = []\<rparr>"

section \<open>The task handlers\<close>

text \<open>
  The handlers \<^verbatim>\<open>CreateTask\<close>, \<^verbatim>\<open>DeleteTask\<close> and \<^verbatim>\<open>MoveTask\<close> as functions of
  the request and the database, returning the HTTP status and the database they leave;
  \<open>idStr\<close> is the path parameter \<^verbatim>\<open>id\<close>.
  The events they publish do not touch the task table and are left out.
\<close>

datatype status = StatusOK | StatusCreated | StatusBadRequest | StatusNotFound

text \<open>\<^verbatim>\<open>SELECT COALESCE(MAX(position), -1)\<close> over the tasks of a column.\<close>

definition max_position :: "uuid \<Rightarrow> Task list \<Rightarrow> int" where
  "max_position columnID tasks =
     (case map Position (filter (\<lambda>t. TaskColumnID t = columnID) tasks) of
        [] \<Rightarrow> - 1
      | p # ps \<Rightarrow> fold max ps p)"

text \<open>The request body is the decoded task; the database assigns the identifier.\<close>

definition CreateTask :: "uuid \<Rightarrow> Task \<Rightarrow> database \<Rightarrow> status \<times> database" where
  "CreateTask new_id task db =
     (let maxPosition = max_position (TaskColumnID task) (db_tasks db);
          task' = task\<lparr>TaskID := new_id, Position := maxPosition + 1\<rparr>
      in (StatusCreated, db\<lparr>db_tasks := db_tasks db @ [task']\<rparr>))"

definition DeleteTask :: "(string \<Rightarrow> uuid option) \<Rightarrow> string \<Rightarrow> database \<Rightarrow> status \<times> database" where
  "DeleteTask parse idStr db =
     (case parse idStr of
        None \<Rightarrow> (StatusBadRequest, db)
      | Some taskID \<Rightarrow>
          (case find (\<lambda>t. TaskID t = taskID) (db_tasks db) of
             None \<Rightarrow> (StatusNotFound, db)
           | Some task \<Rightarrow>
               (StatusOK, db\<lparr>db_tasks := filter (\<lambda>t. TaskID t \<noteq> TaskID task) (db_tasks db)\<rparr>)))"

text \<open>
  The body of a move request is \<^verbatim>\<open>columnId\<close> and \<^verbatim>\<open>position\<close>, both tagged
  \<^verbatim>\<open>binding:"required"\<close>: the binding fails on the zero value of either, that is, on
  the nil UUID and on position 0.  Inside the transaction the tasks behind the old
  place move up by one when the column changes, the tasks of the target column at or
  behind the new place move down by one, and the task read before the transaction is
  saved with the new column and position.
\<close>

definition nil_uuid :: uuid where
  "nil_uuid = ''00000000-0000-0000-0000-000000000000''"

definition MoveTask ::
  "(string \<Rightarrow> uuid option) \<Rightarrow> string \<Rightarrow> uuid \<Rightarrow> int \<Rightarrow> database \<Rightarrow> status \<times> database" where
  "MoveTask parse idStr columnID position db =
     (case parse idStr of
        None \<Rightarrow> (StatusBadRequest, db)
      | Some taskID \<Rightarrow>
          if columnID = nil_uuid \<or> position = 0 then (StatusBadRequest, db)
          else
            (case find (\<lambda>t. TaskID t = taskID) (db_tasks db) of
               None \<Rightarrow> (StatusNotFound, db)
             | Some task \<Rightarrow>
                 (let oldColumnID = TaskColumnID task;
                      oldPosition = Position task;
                      tasks1 =
                        (if oldColumnID \<noteq> columnID
                         then map (\<lambda>t. if TaskColumnID t = oldColumnID \<and> Position t > oldPosition
                                        then t\<lparr>Position := Position t - 1\<rparr> else t) (db_tasks db)
                         else db_tasks db);
                      tasks2 =
                        map (\<lambda>t. if TaskColumnID t = columnID \<and> Position t \<ge> position
                                  then t\<lparr>Position := Position t + 1\<rparr> else t) tasks1;
                      task' = task\<lparr>TaskColumnID := columnID, Position := position\<rparr>;
                      tasks3 = map (\<lambda>t. if TaskID t = TaskID task then task' else t) tasks2
                  in (StatusOK, db\<lparr>db_tasks := tasks3\<rparr>))))"

subsection \<open>Dense positions\<close>

text \<open>
  The positions of the tasks of a column, in table order, and the invariant of the
  specification: the positions are not negative and, sorted, they are consecutive
  integers.
\<close>

definition column_positions :: "database \<Rightarrow> uuid \<Rightarrow> int list" where
  "column_positions db columnID =
     map Position (filter (\<lambda>t. TaskColumnID t = columnID) (db_tasks db))"

definition contiguous :: "int list \<Rightarrow> bool" where
  "contiguous ps =
     (list_all (\<lambda>p. 0 \<le> p) ps \<and>
      (case sort ps of
         [] \<Rightarrow> True
       | lo # rest \<Rightarrow> sort ps = map (\<lambda>i. lo + int i) [0..<length ps]))"

definition column_task :: "string \<Rightarrow> int \<Rightarrow> Task" where
  "column_task tid pos = \<lparr>TaskID = tid, TaskBoardID = ''board-1'', TaskColumnID = ''col-1'',
     Position = pos, StoryPoints = 1, TaskCreatedAt = 0, CompletedAt = None\<rparr>"

text \<open>A column with the tasks a, b, c and d at the positions 0, 1, 2 and 3.\<close>

definition four_task_db :: database where
  "four_task_db = \<lparr>db_events = [], db_columns = [],
     db_tasks = [column_task ''a'' 0, column_task ''b'' 1, column_task ''c'' 2, column_task ''d'' 3],
     db_risks = [], db_metrics = []\<rparr>"

section \<open>Events on the wire\<close>










subsection \<open>The event that \<^verbatim>\<open>CreateTask\<close> publishes\<close>




section \<open>Properties of the priority sort\<close>

lemma sort_inner_step:
  "j < length xs \<Longrightarrow> sort_inner i j xs =
     sort_inner i (j + 1) (if Priority (xs ! i) < Priority (xs ! j) then swap i j xs else xs)"
  by (subst sort_inner.simps) simp

lemma sort_inner_done: "\<not> j < length xs \<Longrightarrow> sort_inner i j xs = xs"
  by (subst sort_inner.simps) simp

lemma sort_outer_step:
  "i + 1 < length xs \<Longrightarrow> sort_outer i xs = sort_outer (i + 1) (sort_inner i (i + 1) xs)"
  by (subst sort_outer.simps) simp

lemma sort_outer_done: "\<not> i + 1 < length xs \<Longrightarrow> sort_outer i xs = xs"
  by (subst sort_outer.simps) simp

lemma mset_sort_inner: "i < j \<Longrightarrow> mset (sort_inner i j xs) = mset xs"
proof (induction i j xs rule: sort_inner.induct)
  case (1 i j actions)
  show ?case
  proof (cases "j < length actions")
    case True
    have sw: "mset (swap i j actions) = mset actions"
      unfolding swap_def using True "1.prems" by (simp add: mset_swap)
    from True "1.IH" "1.prems" sw show ?thesis
      by (simp add: sort_inner_step)
  next
    case False
    then show ?thesis by (simp add: sort_inner_done)
  qed
qed

lemma mset_sort_outer: "mset (sort_outer i xs) = mset xs"
proof (induction i xs rule: sort_outer.induct)
  case (1 i actions)
  show ?case
  proof (cases "i + 1 < length actions")
    case True
    with "1.IH" show ?thesis
      by (simp add: sort_outer_step mset_sort_inner)
  next
    case False
    then show ?thesis by (simp add: sort_outer_done)
  qed
qed

lemma length_sort_outer [simp]: "length (sort_outer i xs) = length xs"
  using mset_sort_outer[of i xs] by (metis size_mset)

lemma sort_inner_bound:
  "i < j \<Longrightarrow> \<forall>k. i \<le> k \<and> k < length xs \<longrightarrow> Priority (xs ! k) \<le> M \<Longrightarrow>
   k \<ge> i \<Longrightarrow> k < length xs \<Longrightarrow> Priority (sort_inner i j xs ! k) \<le> M"
proof (induction i j xs arbitrary: k rule: sort_inner.induct)
  case (1 i j actions)
  show ?case
  proof (cases "j < length actions")
    case True
    let ?ys = "if Priority (actions ! i) < Priority (actions ! j) then swap i j actions else actions"
    have b: "\<forall>k. i \<le> k \<and> k < length ?ys \<longrightarrow> Priority (?ys ! k) \<le> M"
      using "1.prems"(1,2) True by (auto simp: swap_def nth_list_update)
    have "Priority (sort_inner i (j + 1) ?ys ! k) \<le> M"
      using "1.IH"[OF True _ b, of k] "1.prems" by simp
    then show ?thesis using True by (simp only: sort_inner_step)
  next
    case False
    then show ?thesis using "1.prems" by (simp add: sort_inner_done)
  qed
qed

lemma sort_inner_prefix:
  "i < j \<Longrightarrow> k < i \<Longrightarrow> sort_inner i j xs ! k = xs ! k"
proof (induction i j xs rule: sort_inner.induct)
  case (1 i j actions)
  show ?case
  proof (cases "j < length actions")
    case True
    then show ?thesis using "1.IH" "1.prems"
      by (simp add: sort_inner_step swap_def)
  next
    case False
    then show ?thesis by (simp add: sort_inner_done)
  qed
qed

lemma sort_inner_max:
  "i < j \<Longrightarrow> \<forall>k. i < k \<and> k < j \<longrightarrow> Priority (xs ! k) \<le> Priority (xs ! i) \<Longrightarrow>
   i < k \<Longrightarrow> k < length xs \<Longrightarrow>
   Priority (sort_inner i j xs ! k) \<le> Priority (sort_inner i j xs ! i)"
proof (induction i j xs arbitrary: k rule: sort_inner.induct)
  case (1 i j actions)
  show ?case
  proof (cases "j < length actions")
    case True
    let ?ys = "if Priority (actions ! i) < Priority (actions ! j) then swap i j actions else actions"
    have b: "\<forall>k. i < k \<and> k < j + 1 \<longrightarrow> Priority (?ys ! k) \<le> Priority (?ys ! i)"
      using "1.prems"(1,2) True by (auto simp: swap_def nth_list_update less_Suc_eq)
    have "Priority (sort_inner i (j + 1) ?ys ! k) \<le> Priority (sort_inner i (j + 1) ?ys ! i)"
      using "1.IH"[OF True _ b, of k] "1.prems" by simp
    then show ?thesis using True by (simp only: sort_inner_step)
  next
    case False
    then show ?thesis using "1.prems" by (simp add: sort_inner_done) 
  qed
qed


lemma settled_sort_inner:
  assumes "settled i xs" "i + 1 < length xs"
  shows "settled (i + 1) (sort_inner i (i + 1) xs)"
  unfolding settled_def
proof (intro allI impI)
  fix a b
  let ?ys = "sort_inner i (i + 1) xs"
  assume h: "a < i + 1 \<and> a < b \<and> b < length ?ys"
  show "Priority (?ys ! b) \<le> Priority (?ys ! a)"
  proof (cases "a < i")
    case True
    have ya: "?ys ! a = xs ! a" using True by (simp add: sort_inner_prefix)
    show ?thesis
    proof (cases "b < i")
      case True
      then have "?ys ! b = xs ! b" by (simp add: sort_inner_prefix)
      with ya assms(1) h \<open>a < i\<close> show ?thesis by (simp add: settled_def)
    next
      case False
      have "\<forall>k. i \<le> k \<and> k < length xs \<longrightarrow> Priority (xs ! k) \<le> Priority (xs ! a)"
        using assms(1) True by (auto simp: settled_def)
      then have "Priority (?ys ! b) \<le> Priority (xs ! a)"
        using sort_inner_bound[of i "i + 1" xs "Priority (xs ! a)" b] False h by simp
      with ya show ?thesis by simp
    qed
  next
    case False
    with h have "a = i" by simp
    then show ?thesis
      using sort_inner_max[of i "i + 1" xs b] h by simp
  qed
qed

lemma settled_sort_outer:
  "settled i xs \<Longrightarrow> settled (length xs) (sort_outer i xs)"
proof (induction i xs rule: sort_outer.induct)
  case (1 i actions)
  show ?case
  proof (cases "i + 1 < length actions")
    case True
    from "1.IH"[OF True settled_sort_inner[OF "1.prems" True]]
    show ?thesis using True by (simp add: sort_outer_step)
  next
    case False
    then show ?thesis using "1.prems"
      by (auto simp: sort_outer_done settled_def)
  qed
qed

lemma sorted_sort_by_priority:
  "sorted_wrt (\<lambda>a b. Priority b \<le> Priority a) (sort_by_priority xs)"
proof -
  have "settled 0 xs" by (simp add: settled_def)
  from settled_sort_outer[OF this]
  show ?thesis
    by (auto simp: sort_by_priority_def sorted_wrt_iff_nth_less settled_def)
qed

section \<open>One run of the execution loop\<close>

lemma attempt_outcome: "attempt ex a q = q(ID a := outcome ex a)"
  by (auto simp: attempt_def outcome_def removeAction_def Let_def)

lemma execute_loop_effect:
  "distinct (map ID acts) \<Longrightarrow>
   execute_loop ex acts q k =
     (case find (\<lambda>a. ID a = k) acts of None \<Rightarrow> q k | Some a \<Rightarrow> outcome ex a)"
proof (induction acts arbitrary: q)
  case Nil
  then show ?case by simp
next
  case (Cons a acts)
  have "ID a \<notin> ID ` set acts" using Cons.prems by simp
  then have "\<And>b. b \<in> set acts \<Longrightarrow> ID b \<noteq> ID a" by (metis imageI)
  then have nf: "find (\<lambda>b. ID b = ID a) acts = None"
    by (simp add: find_None_iff)
  have d: "distinct (map ID acts)" using Cons.prems by simp
  have "execute_loop ex (a # acts) q k = execute_loop ex acts (q(ID a := outcome ex a)) k"
    by (simp add: attempt_outcome)
  also have "\<dots> = (case find (\<lambda>b. ID b = k) acts of
                      None \<Rightarrow> (q(ID a := outcome ex a)) k | Some b \<Rightarrow> outcome ex b)"
    by (rule Cons.IH[OF d])
  also have "\<dots> = (case find (\<lambda>b. ID b = k) (a # acts) of
                      None \<Rightarrow> q k | Some b \<Rightarrow> outcome ex b)"
    using nf by (cases "ID a = k") (auto split: option.splits)
  finally show ?case .
qed

lemma snapshot_ids:
  "queue_ok q \<Longrightarrow> set keys \<subseteq> dom q \<Longrightarrow> map ID (snapshot q keys) = keys"
proof (induction keys)
  case Nil
  then show ?case by (simp add: snapshot_def map_filter_simps)
next
  case (Cons k keys)
  then obtain a where a: "q k = Some a" by auto
  with Cons.prems(1) have "ID a = k" by (auto simp: queue_ok_def)
  with Cons a show ?case by (simp add: snapshot_def map_filter_simps)
qed

lemma snapshot_set:
  "set (snapshot q keys) = {a. \<exists>k \<in> set keys. q k = Some a}"
  unfolding snapshot_def
  by (induction keys) (auto simp: map_filter_simps split: option.splits)

lemma sorted_snapshot_ids:
  assumes "queue_ok q" "enumerates keys q"
  shows "mset (map ID (sort_by_priority (snapshot q keys))) = mset keys"
proof -
  have "mset (sort_by_priority (snapshot q keys)) = mset (snapshot q keys)"
    by (simp add: sort_by_priority_def mset_sort_outer)
  then have "mset (map ID (sort_by_priority (snapshot q keys))) = mset (map ID (snapshot q keys))"
    by (metis mset_map)
  also have "map ID (snapshot q keys) = keys"
    using assms by (intro snapshot_ids) (auto simp: enumerates_def)
  finally show ?thesis .
qed

lemma sorted_snapshot_set:
  "set (sort_by_priority (snapshot q keys)) = {a. \<exists>k \<in> set keys. q k = Some a}"
proof -
  have "mset (sort_by_priority (snapshot q keys)) = mset (snapshot q keys)"
    by (simp add: sort_by_priority_def mset_sort_outer)
  then have "set (sort_by_priority (snapshot q keys)) = set (snapshot q keys)"
    by (metis set_mset_mset)
  then show ?thesis by (simp add: snapshot_set)
qed

lemma attempts_of_distinct:
  "distinct (map ID xs) \<Longrightarrow> attempts_of k xs = (if k \<in> set (map ID xs) then 1 else 0)"
proof (induction xs)
  case Nil
  then show ?case by (simp add: attempts_of_def)
next
  case (Cons x xs)
  then show ?case by (force simp: attempts_of_def image_iff)
qed

lemma attempts_of_cycle:
  assumes "queue_ok q" "enumerates keys q"
  shows "attempts_of k (snd (executePendingActions ex keys q)) = (if k \<in> dom q then 1 else 0)"
proof -
  let ?acts = "sort_by_priority (snapshot q keys)"
  have m: "mset (map ID ?acts) = mset keys"
    by (rule sorted_snapshot_ids[OF assms])
  have d: "distinct (map ID ?acts)"
    using m assms(2) by (metis enumerates_def mset_eq_imp_distinct_iff)
  have s: "set (map ID ?acts) = dom q"
    using m assms(2) by (metis enumerates_def mset_eq_setD)
  show ?thesis
    using attempts_of_distinct[OF d, of k] s
    by (simp add: executePendingActions_def Let_def)
qed

lemma find_unique:
  "a \<in> set xs \<Longrightarrow> P a \<Longrightarrow> (\<And>b. b \<in> set xs \<Longrightarrow> P b \<Longrightarrow> b = a) \<Longrightarrow> find P xs = Some a"
proof (induction xs)
  case Nil
  then show ?case by simp
next
  case (Cons x xs)
  show ?case
  proof (cases "P x")
    case True
    then have "x = a" using Cons.prems(3)[of x] by simp
    with True show ?thesis by simp
  next
    case False
    with Cons.prems(1,2) have m: "a \<in> set xs" by auto
    have "find P xs = Some a"
    proof (rule Cons.IH[OF m Cons.prems(2)])
      fix b assume "b \<in> set xs" "P b"
      then show "b = a" using Cons.prems(3)[of b] by simp
    qed
    with False show ?thesis by simp
  qed
qed

lemma queue_after_cycle:
  assumes "queue_ok q" "enumerates keys q"
  shows "fst (executePendingActions ex keys q) k =
           (case q k of None \<Rightarrow> None | Some a \<Rightarrow> outcome ex a)"
proof -
  let ?acts = "sort_by_priority (snapshot q keys)"
  have d: "distinct (map ID ?acts)"
    using sorted_snapshot_ids[OF assms] assms(2)
    by (metis enumerates_def mset_eq_imp_distinct_iff)
  have f: "find (\<lambda>a. ID a = k) ?acts = q k"
  proof (cases "q k")
    case None
    have "\<And>a. a \<in> set ?acts \<Longrightarrow> ID a \<noteq> k"
      using None assms(1) by (auto simp: sorted_snapshot_set queue_ok_def)
    then show ?thesis using None by (auto simp: find_None_iff)
  next
    case (Some a)
    have m: "a \<in> set ?acts" using Some assms(2)
      by (auto simp: sorted_snapshot_set enumerates_def)
    have i: "ID a = k" using Some assms(1) by (auto simp: queue_ok_def)
    have u: "\<And>b. b \<in> set ?acts \<Longrightarrow> ID b = k \<Longrightarrow> b = a"
      using Some assms(1) by (auto simp: sorted_snapshot_set queue_ok_def)
    have "find (\<lambda>b. ID b = k) ?acts = Some a"
    proof (rule find_unique[where P = "\<lambda>b. ID b = k"])
      show "a \<in> set ?acts" by (rule m)
      show "ID a = k" by (rule i)
      fix b assume "b \<in> set ?acts" "ID b = k"
      then show "b = a" by (rule u)
    qed
    with Some show ?thesis by simp
  qed
  have "fst (executePendingActions ex keys q) k = execute_loop ex ?acts q k"
    by (simp add: executePendingActions_def Let_def)
  also have "\<dots> = (case find (\<lambda>a. ID a = k) ?acts of None \<Rightarrow> q k | Some a \<Rightarrow> outcome ex a)"
    by (rule execute_loop_effect[OF d])
  also have "\<dots> = (case q k of None \<Rightarrow> None | Some a \<Rightarrow> outcome ex a)"
    unfolding f by (simp split: option.splits)
  finally show ?thesis .
qed

lemma queue_ok_cycle:
  assumes "queue_ok q" "enumerates keys q"
  shows "queue_ok (fst (executePendingActions ex keys q))"
  unfolding queue_ok_def
proof (intro allI impI)
  fix k a
  assume "fst (executePendingActions ex keys q) k = Some a"
  then obtain b where "q k = Some b" "outcome ex b = Some a"
    using queue_after_cycle[OF assms, of ex k] by (auto split: option.splits)
  with assms(1) show "ID a = k \<and> 0 \<le> RetryCount a \<and> RetryCount a < 3"
    by (auto simp: queue_ok_def outcome_def split: if_splits)
qed

section \<open>Repeated runs of the execution loop\<close>

lemma attempts_of_append: "attempts_of k (xs @ ys) = attempts_of k xs + attempts_of k ys"
  by (simp add: attempts_of_def)

lemma run_cycles_Cons:
  "run_cycles ((ex, keys) # cs) q =
     (fst (run_cycles cs (fst (executePendingActions ex keys q))),
      snd (executePendingActions ex keys q) @ snd (run_cycles cs (fst (executePendingActions ex keys q))))"
  by (simp add: split_beta Let_def)

lemma queue_ok_run:
  "queue_ok q \<Longrightarrow> valid_cycles cs q \<Longrightarrow> queue_ok (fst (run_cycles cs q))"
proof (induction cs arbitrary: q)
  case Nil
  then show ?case by simp
next
  case (Cons c cs)
  obtain ex keys where c: "c = (ex, keys)" by (cases c)
  from Cons.prems have e: "enumerates keys q"
    and v: "valid_cycles cs (fst (executePendingActions ex keys q))"
    by (simp_all add: c)
  have "queue_ok (fst (executePendingActions ex keys q))"
    by (rule queue_ok_cycle[OF Cons.prems(1) e])
  from Cons.IH[OF this v] show ?case
    by (simp only: c run_cycles_Cons fst_conv)
qed

lemma attempts_absent:
  "queue_ok q \<Longrightarrow> valid_cycles cs q \<Longrightarrow> q k = None \<Longrightarrow>
   attempts_of k (snd (run_cycles cs q)) = 0 \<and> fst (run_cycles cs q) k = None"
proof (induction cs arbitrary: q)
  case Nil
  then show ?case by (simp add: attempts_of_def)
next
  case (Cons c cs)
  obtain ex keys where c: "c = (ex, keys)" by (cases c)
  let ?q1 = "fst (executePendingActions ex keys q)"
  from Cons.prems have e: "enumerates keys q" and v: "valid_cycles cs ?q1"
    by (simp_all add: c)
  have ok1: "queue_ok ?q1" by (rule queue_ok_cycle[OF Cons.prems(1) e])
  have n1: "?q1 k = None"
    using queue_after_cycle[OF Cons.prems(1) e, of ex k] Cons.prems(3) by simp
  have a1: "attempts_of k (snd (executePendingActions ex keys q)) = 0"
    using attempts_of_cycle[OF Cons.prems(1) e, of k ex] Cons.prems(3) by (simp add: domIff)
  from Cons.IH[OF ok1 v n1] a1 show ?case
    by (simp only: c run_cycles_Cons fst_conv snd_conv attempts_of_append) simp
qed

lemma attempts_bound:
  "queue_ok q \<Longrightarrow> valid_cycles cs q \<Longrightarrow> q k = Some a \<Longrightarrow>
   int (attempts_of k (snd (run_cycles cs q))) \<le> 3 - RetryCount a"
proof (induction cs arbitrary: q a)
  case Nil
  then have "RetryCount a < 3" unfolding queue_ok_def by blast
  then show ?case by (simp add: attempts_of_def)
next
  case (Cons c cs)
  obtain ex keys where c: "c = (ex, keys)" by (cases c)
  let ?q1 = "fst (executePendingActions ex keys q)"
  let ?t1 = "snd (executePendingActions ex keys q)"
  from Cons.prems have e: "enumerates keys q" and v: "valid_cycles cs ?q1"
    by (simp_all add: c)
  have ok1: "queue_ok ?q1" by (rule queue_ok_cycle[OF Cons.prems(1) e])
  have "RetryCount a < 3" using Cons.prems(1,3) unfolding queue_ok_def by blast
  then have rc: "RetryCount a \<le> 2" by simp
  have q1: "?q1 k = outcome ex a"
    using queue_after_cycle[OF Cons.prems(1) e, of ex k] Cons.prems(3) by simp
  have a1: "attempts_of k ?t1 = 1"
    using attempts_of_cycle[OF Cons.prems(1) e, of k ex] Cons.prems(3) by (simp add: domI)
  have tot: "attempts_of k (snd (run_cycles (c # cs) q)) = 1 + attempts_of k (snd (run_cycles cs ?q1))"
    using a1 by (simp only: c run_cycles_Cons snd_conv attempts_of_append)
  show ?case
  proof (cases "outcome ex a")
    case None
    with q1 have "?q1 k = None" by simp
    from attempts_absent[OF ok1 v this] tot rc show ?thesis by simp
  next
    case (Some a')
    then have r': "RetryCount a' = RetryCount a + 1"
      by (auto simp: outcome_def split: if_splits)
    from q1 Some have "?q1 k = Some a'" by simp
    from Cons.IH[OF ok1 v this] tot r' show ?thesis by simp
  qed
qed

section \<open>Properties of the alert handlers\<close>

lemma target_loop_frame:
  "target_loop u xs fr =
     \<lparr>user = (if xs = [] then user fr else last xs),
      targetUser = (if targetUser fr = AddrUser \<or> (\<exists>x \<in> set xs. eligible u x)
                    then AddrUser else NilPtr)\<rparr>"
proof (induction xs arbitrary: fr)
  case Nil
  then show ?case by (cases "targetUser fr") simp_all
next
  case (Cons x xs)
  show ?case
    by (simp add: Cons.IH target_step_def load_def eligible_def Let_def split: wa_ptr.splits)
qed

text \<open>
  Once \<^verbatim>\<open>targetUser\<close> points at the loop variable, the comparison reads the same
  cell on both sides and the pointer never moves; what it denotes after the loop is
  the last element of the list.
\<close>

lemma find_target_last:
  "find_target u xs = (if \<exists>x \<in> set xs. eligible u x then Some (last xs) else None)"
  by (auto simp: find_target_def target_loop_frame load_def Let_def)

lemma overload_without_target:
  assumes "AlertData alert ''userId'' = Some (GString u)"
    and "fetch (AlertBoardID alert) = Some team"
    and "\<And>p. p \<in> set team \<Longrightarrow> \<not> eligible u (workload_of p)"
  shows "handleOverloadAlert newID now fetch alert q = Done q"
proof -
  have "find_target u (map workload_of team) = None"
    using assms(3) by (simp add: find_target_last)
  then show ?thesis
    by (simp add: handleOverloadAlert_def analyzeWorkload_def assms(1,2))
qed

lemma team_target: "find_target ''carol'' (map workload_of [alice, bob, carol]) = Some (workload_of carol)"
  by (simp add: find_target_last eligible_def workload_of_def alice_def bob_def carol_def)

lemma pair_target: "find_target ''carol'' (map workload_of [carol, alice]) = Some (workload_of alice)"
  by (simp add: find_target_last eligible_def workload_of_def alice_def carol_def)

lemma snapshot_ran: "enumerates keys q \<Longrightarrow> set (snapshot q keys) = ran q"
  by (auto simp: snapshot_set enumerates_def ran_def)

lemma calls_ran: "enumerates keys q \<Longrightarrow> set (snd (executePendingActions ex keys q)) = ran q"
  using snapshot_ran[of keys q] sorted_snapshot_set[of q keys] snapshot_set[of q keys]
  by (simp add: executePendingActions_def Let_def)

lemma calls_sorted:
  "sorted_wrt (\<lambda>a b. Priority b \<le> Priority a) (snd (executePendingActions ex keys q))"
  by (simp add: executePendingActions_def Let_def sorted_sort_by_priority)

lemma overload_priority:
  "handleOverloadAlert newID now fetch alert q = Done q' \<Longrightarrow>
   q' = q \<or> (\<exists>a. q' = queueAction q a \<and> ID a = newID \<and> Type a = ''redistribute_tasks'' \<and>
                 Priority a = 1)"
  by (auto simp: handleOverloadAlert_def split: option.splits gval.splits)

lemma bottleneck_priority:
  "handleBottleneckAlert newID now alert q = Done q' \<Longrightarrow>
   \<exists>a. q' = queueAction q a \<and> ID a = newID \<and> Type a = ''adjust_wip_limits'' \<and> Priority a = 2"
  by (auto simp: handleBottleneckAlert_def split: option.splits gval.splits)

lemma wip_priority:
  "handleWIPViolationAlert newID now alert q = Done q' \<Longrightarrow>
   \<exists>a. q' = queueAction q a \<and> ID a = newID \<and> Type a = ''enforce_wip_limits'' \<and> Priority a = 2"
  by (auto simp: handleWIPViolationAlert_def split: option.splits gval.splits)

lemma deadline_priority:
  "handleDeadlineAlert newID now alert q = Done q' \<Longrightarrow>
   \<exists>a. q' = queueAction q a \<and> ID a = newID \<and> Type a = ''reassign_overdue'' \<and> Priority a = 3"
  by (auto simp: handleDeadlineAlert_def split: option.splits gval.splits)

lemma overload_queued:
  "handleRiskAlert ''act-1'' 0 pair_reply overload_alert Map.empty =
     Done [''act-1'' \<mapsto> overload_action]"
proof -
  have a: "AlertData overload_alert ''userId'' = Some (GString ''carol'')"
    by (simp add: overload_alert_def)
  have b: "analyzeWorkload (pair_reply ''board-1'') = Some (map workload_of [carol, alice])"
    by (simp add: analyzeWorkload_def pair_reply_def)
  have c: "UserID (workload_of alice) = ''alice''"
    by (simp add: workload_of_def alice_def)
  have d: "AlertBoardID overload_alert = ''board-1''" "AlertID overload_alert = ''alert-1''"
    by (simp_all add: overload_alert_def)
  have "handleOverloadAlert ''act-1'' 0 pair_reply overload_alert Map.empty =
          Done [''act-1'' \<mapsto> overload_action]"
    by (simp only: handleOverloadAlert_def a b pair_target c d option.case gval.case
          queueAction_def overload_action_def) simp
  then show ?thesis by (simp add: handleRiskAlert_def overload_alert_def)
qed

lemma deadline_queued:
  "handleRiskAlert ''act-2'' 1 pair_reply deadline_alert [''act-1'' \<mapsto> overload_action] =
     Done [''act-1'' \<mapsto> overload_action, ''act-2'' \<mapsto> deadline_action]"
  by (simp add: handleRiskAlert_def handleDeadlineAlert_def deadline_alert_def
      deadline_action_def queueAction_def)

lemma run_two:
  "snd (executePendingActions ex [''act-1'', ''act-2'']
          [''act-1'' \<mapsto> overload_action, ''act-2'' \<mapsto> deadline_action]) =
     [deadline_action, overload_action]"
  by (simp add: executePendingActions_def snapshot_def map_filter_simps sort_by_priority_def
      sort_outer.simps sort_inner.simps swap_def Let_def overload_action_def deadline_action_def)

lemma run_two_rev:
  "snd (executePendingActions ex [''act-2'', ''act-1'']
          [''act-1'' \<mapsto> overload_action, ''act-2'' \<mapsto> deadline_action]) =
     [deadline_action, overload_action]"
  by (simp add: executePendingActions_def snapshot_def map_filter_simps sort_by_priority_def
      sort_outer.simps sort_inner.simps swap_def Let_def overload_action_def deadline_action_def)

section \<open>Properties of the consume loop\<close>

lemma consume_one_cases:
  "consume_one unmarshal handler body s =
     (case unmarshal body of
        None \<Rightarrow> (Nack False False, s)
      | Some event \<Rightarrow>
          (if fst (handler event s) \<noteq> None then (Nack False True, snd (handler event s))
           else (Ack False, snd (handler event s))))"
  by (auto simp: consume_one_def split: option.splits prod.splits)

lemma length_consume_loop:
  "length (fst (consume_loop unmarshal handler msgs s)) = length msgs"
  by (induction msgs arbitrary: s) (auto simp: split_beta Let_def)

lemma deliver_keeps:
  assumes u: "unmarshal body = Some event"
    and f: "\<And>s. fst (handler event s) \<noteq> None"
    and r: "\<And>b q. set (requeue b q) = insert b (set q)"
  shows "body \<in> set queue \<Longrightarrow>
         body \<in> set (fst (snd (deliver unmarshal handler requeue n queue s))) \<and>
         (\<forall>a. (body, a) \<in> set (fst (deliver unmarshal handler requeue n queue s)) \<longrightarrow> a = Nack False True)"
proof (induction n arbitrary: queue s)
  case 0
  then show ?case by simp
next
  case (Suc n)
  then obtain b rest where q: "queue = b # rest" by (cases queue) auto
  obtain a s' where c: "consume_one unmarshal handler b s = (a, s')" by force
  let ?queue' = "case a of Nack multiple True \<Rightarrow> requeue b rest | _ \<Rightarrow> rest"
  have own: "b = body \<Longrightarrow> a = Nack False True"
    using c u f[of s] by (auto simp: consume_one_cases)
  have "body \<in> set ?queue'"
  proof (cases "b = body")
    case True
    with own r show ?thesis by simp
  next
    case False
    with Suc.prems q have "body \<in> set rest" by simp
    with r show ?thesis by (auto split: acknowledgement.splits bool.splits)
  qed
  from Suc.IH[OF this, of s'] own show ?case
    by (auto simp: q c split_beta Let_def)
qed

section \<open>Properties of the event processor\<close>

lemma column_tasks_risks [simp]: "column_tasks (db\<lparr>db_risks := r\<rparr>) c = column_tasks db c"
  by (simp add: column_tasks_def)

lemma column_tasks_metrics [simp]: "column_tasks (db\<lparr>db_metrics := r\<rparr>) c = column_tasks db c"
  by (simp add: column_tasks_def)

lemma bottleneck_loop_result:
  "bottleneck_loop b cs db =
     db\<lparr>db_risks := db_risks db @
           map (\<lambda>c. bottleneck_risk b c (column_tasks db c)) (filter (over_limit db) cs)\<rparr>"
proof (induction cs arbitrary: db)
  case Nil
  then show ?case by simp
next
  case (Cons c cs)
  have o: "over_limit (db\<lparr>db_risks := r\<rparr>) = over_limit db" for r
    by (rule ext) (simp add: over_limit_def)
  show ?case
    by (simp add: Cons.IH o over_limit_def[of db c])
qed

lemma cycle_time_tables:
  "updateCycleTimeMetrics parse wk now b db = Inr db' \<Longrightarrow>
   db_columns db' = db_columns db \<and> db_tasks db' = db_tasks db \<and> db_risks db' = db_risks db"
  by (auto simp: updateCycleTimeMetrics_def Let_def split: option.splits if_splits)

lemma cycle_time_ok:
  "parse b = Some boardID \<Longrightarrow> \<exists>db'. updateCycleTimeMetrics parse wk now b db = Inr db'"
  by (simp add: updateCycleTimeMetrics_def Let_def)

lemma analyze_risks:
  assumes "parse b = Some boardID"
  shows "analyzeBottlenecks parse b db =
     Inr (db\<lparr>db_risks := db_risks db @
           map (\<lambda>c. bottleneck_risk boardID c (column_tasks db c))
             (filter (over_limit db) (filter (\<lambda>c. ColumnBoardID c = boardID) (db_columns db)))\<rparr>)"
  by (simp add: analyzeBottlenecks_def assms bottleneck_loop_result)

lemma sunday: "Weekday sunday_noon = 0"
  by (simp add: Weekday_def sunday_noon_def)

lemma weekend_none: "completed_since ''board-1'' (sunday_noon - 86400 * Weekday sunday_noon) (db_tasks weekend_db) = []"
  by (simp only: sunday) (simp add: completed_since_def weekend_db_def saturday_task_def sunday_noon_def)

lemma saturday: "Weekday saturday_noon = 6"
  by (simp add: Weekday_def saturday_noon_def)

lemma weekend_one:
  "completed_since ''board-1'' (saturday_noon - 86400 * Weekday saturday_noon) (db_tasks weekend_db) =
     [saturday_task]"
  by (simp only: saturday)
     (simp add: completed_since_def weekend_db_def saturday_task_def saturday_noon_def)


lemma store_ok:
  "parse (EventBoardID event) = Some boardID \<Longrightarrow> parse (EventUserID event) = Some userID \<Longrightarrow>
   \<exists>rows. storeEvent parse event db = Inr (db\<lparr>db_events := rows\<rparr>)"
  by (simp add: storeEvent_def) blast

lemma handle_created:
  assumes "EventType event = ''board.created''"
    and "parse_uuid e (EventBoardID event) = Some boardID"
    and "parse_uuid e (EventUserID event) = Some userID"
  shows "\<exists>db'. handleEvent e event db = Inr db' \<and>
           db_columns db' =
             (if filter (\<lambda>c. ColumnBoardID c = boardID) (db_columns db) = []
              then db_columns db @ defaultColumns (column_ids e) boardID
              else db_columns db)"
proof -
  obtain rows where s: "storeEvent (parse_uuid e) event db = Inr (db\<lparr>db_events := rows\<rparr>)"
    using store_ok[of "parse_uuid e" event boardID userID db] assms(2,3) by blast
  show ?thesis
    by (simp add: handleEvent_def s assms(1,2) handleBoardCreated_def initializeDefaultColumns_def
        Let_def)
qed

lemma default_board_columns:
  "filter (\<lambda>c. ColumnBoardID c = boardID) (defaultColumns new_id boardID) =
     defaultColumns new_id boardID"
  by (simp add: defaultColumns_def)


text \<open>
  The arithmetic of \<^verbatim>\<open>updateVelocityMetrics\<close> over the tasks its query selects: the
  total of the story points divided by the number of tasks plus one, with a divisor
  that is never zero and the value 0 when no task is selected.
\<close>

lemma velocity_formula:
  assumes "parse boardIDStr = Some boardID"
  shows "\<exists>m. updateVelocityMetrics parse iso_week now boardIDStr db =
               Inr (db\<lparr>db_metrics := db_metrics db @ [m]\<rparr>) \<and>
             Velocity m =
               real_of_int (sum_list (map StoryPoints
                 (completed_since boardID (now - 86400 * Weekday now) (db_tasks db)))) /
               (real (length (completed_since boardID (now - 86400 * Weekday now) (db_tasks db))) + 1) \<and>
             real (length (completed_since boardID (now - 86400 * Weekday now) (db_tasks db))) + 1 \<noteq> 0 \<and>
             (completed_since boardID (now - 86400 * Weekday now) (db_tasks db) = [] \<longrightarrow>
                Velocity m = 0)"
proof -
  let ?m = "velocity_metric iso_week now boardID (db_tasks db)"
  have "updateVelocityMetrics parse iso_week now boardIDStr db =
               Inr (db\<lparr>db_metrics := db_metrics db @ [?m]\<rparr>)"
    by (simp add: updateVelocityMetrics_def assms)
  moreover have "Velocity ?m =
               real_of_int (sum_list (map StoryPoints
                 (completed_since boardID (now - 86400 * Weekday now) (db_tasks db)))) /
               (real (length (completed_since boardID (now - 86400 * Weekday now) (db_tasks db))) + 1)"
    by (simp add: velocity_metric_def AddDays_def Let_def add.commute)
  moreover have "real (length (completed_since boardID (now - 86400 * Weekday now) (db_tasks db))) + 1 \<noteq> 0"
    by (metis of_nat_Suc of_nat_neq_0 Suc_eq_plus1 of_nat_add of_nat_1)
  moreover have "completed_since boardID (now - 86400 * Weekday now) (db_tasks db) = [] \<longrightarrow>
                Velocity ?m = 0"
    by (simp add: velocity_metric_def AddDays_def Let_def)
  ultimately show ?thesis by blast
qed



lemma velocity_formula_example:
  "completed_since ''board-1'' (sunday_noon - 86400 * Weekday sunday_noon) (db_tasks weekend_db) = [] \<and>
   (\<exists>m. updateVelocityMetrics Some (\<lambda>t. 1) sunday_noon ''board-1'' weekend_db =
               Inr (weekend_db\<lparr>db_metrics := db_metrics weekend_db @ [m]\<rparr>) \<and> Velocity m = 0) \<and>
   (\<exists>m. updateVelocityMetrics Some (\<lambda>t. 1) saturday_noon ''board-1'' weekend_db =
               Inr (weekend_db\<lparr>db_metrics := db_metrics weekend_db @ [m]\<rparr>) \<and> Velocity m = 5 / 2)"
proof -
  have p: "Some ''board-1'' = Some ''board-1''" by simp
  from velocity_formula[of Some "''board-1''" "''board-1''" "\<lambda>t. 1" sunday_noon weekend_db] p weekend_none
  have a: "\<exists>m. updateVelocityMetrics Some (\<lambda>t. 1) sunday_noon ''board-1'' weekend_db =
               Inr (weekend_db\<lparr>db_metrics := db_metrics weekend_db @ [m]\<rparr>) \<and> Velocity m = 0"
    by auto
  from velocity_formula[of Some "''board-1''" "''board-1''" "\<lambda>t. 1" saturday_noon weekend_db] p
  have b: "\<exists>m. updateVelocityMetrics Some (\<lambda>t. 1) saturday_noon ''board-1'' weekend_db =
               Inr (weekend_db\<lparr>db_metrics := db_metrics weekend_db @ [m]\<rparr>) \<and> Velocity m = 5 / 2"
    by (simp only: weekend_one) (auto simp: saturday_task_def)
  from weekend_none a b show ?thesis by blast
qed



section \<open>Properties of the task handlers\<close>

text \<open>
  \<^verbatim>\<open>CreateTask\<close> places the new task one behind the greatest position of its
  column, so it keeps a column with contiguous positions contiguous.
\<close>

lemma max_position_Max:
  assumes "map Position (filter (\<lambda>t. TaskColumnID t = c) tasks) \<noteq> []"
  shows "max_position c tasks = Max (set (map Position (filter (\<lambda>t. TaskColumnID t = c) tasks)))"
proof -
  obtain p ps where e: "map Position (filter (\<lambda>t. TaskColumnID t = c) tasks) = p # ps"
    using assms by (cases "map Position (filter (\<lambda>t. TaskColumnID t = c) tasks)") auto
  have "max_position c tasks = fold max ps p"
    by (simp add: max_position_def e)
  also have "\<dots> = Max (set (p # ps))" by (rule Max.set_eq_fold[symmetric])
  finally show ?thesis by (simp only: e)
qed

lemma sort_snoc_max:
  fixes x :: int
  assumes "\<And>p. p \<in> set ps \<Longrightarrow> p \<le> x"
  shows "sort (ps @ [x]) = sort ps @ [x]"
proof (rule properties_for_sort)
  show "mset (sort ps @ [x]) = mset (ps @ [x])" by simp
  show "sorted (sort ps @ [x])" using assms by (simp add: sorted_append)
qed

lemma create_positions:
  "column_positions (snd (CreateTask new_id task db)) (TaskColumnID task) =
     column_positions db (TaskColumnID task) @ [max_position (TaskColumnID task) (db_tasks db) + 1]"
  by (simp add: CreateTask_def column_positions_def Let_def)

lemma Max_run:
  assumes "0 < n"
  shows "Max (set (map (\<lambda>i. lo + int i) [0..<n])) = lo + int n - 1"
proof (rule Max_eqI)
  show "finite (set (map (\<lambda>i. lo + int i) [0..<n]))" by simp
  show "y \<le> lo + int n - 1" if "y \<in> set (map (\<lambda>i. lo + int i) [0..<n])" for y
    using that by auto
  have "n - 1 < n" using assms by simp
  then have "lo + int (n - 1) \<in> set (map (\<lambda>i. lo + int i) [0..<n])"
    by (simp only: set_map set_upt) (rule imageI, simp)
  moreover have "lo + int (n - 1) = lo + int n - 1" using assms by (simp add: of_nat_diff)
  ultimately show "lo + int n - 1 \<in> set (map (\<lambda>i. lo + int i) [0..<n])"
    by (simp only:)
qed

lemma case_run:
  "xs = lo # rest \<Longrightarrow> xs = map (\<lambda>i. lo + int i) [0..<k] \<Longrightarrow>
   (case xs of [] \<Rightarrow> True | l # r \<Rightarrow> xs = map (\<lambda>i. l + int i) [0..<k])"
  by (cases xs) auto

lemma create_keeps_contiguous:
  assumes "contiguous (column_positions db (TaskColumnID task))"
  shows "contiguous (column_positions (snd (CreateTask new_id task db)) (TaskColumnID task))"
proof -
  let ?c = "TaskColumnID task"
  let ?ps = "column_positions db ?c"
  let ?m = "max_position ?c (db_tasks db)"
  let ?n = "length ?ps"
  have nn: "list_all (\<lambda>p. 0 \<le> p) ?ps" using assms by (simp add: contiguous_def)
  show ?thesis
  proof (cases "?ps = []")
    case True
    then have "?m = - 1" by (simp add: max_position_def column_positions_def)
    with True show ?thesis by (simp add: create_positions contiguous_def)
  next
    case False
    then have n: "0 < ?n" by simp
    obtain lo rest where lr: "sort ?ps = lo # rest"
      using False by (cases "sort ?ps") (auto dest: arg_cong[where f = length])
    with assms have run: "sort ?ps = map (\<lambda>i. lo + int i) [0..<?n]"
      by (simp add: contiguous_def)
    have "?m = Max (set ?ps)"
      using max_position_Max[of ?c "db_tasks db"] False by (simp add: column_positions_def)
    also have "set ?ps = set (sort ?ps)" by simp
    also have "Max (set (sort ?ps)) = lo + int ?n - 1"
      unfolding run by (rule Max_run[OF n])
    finally have m: "?m + 1 = lo + int ?n" by simp
    have "lo \<in> set (sort ?ps)" by (simp add: lr)
    then have "lo \<in> set ?ps" by simp
    with nn have lo0: "0 \<le> lo" by (simp add: list_all_iff)
    have le: "p \<le> ?m + 1" if "p \<in> set ?ps" for p
    proof -
      from that have "p \<in> set (sort ?ps)" by simp
      then show ?thesis unfolding m run by auto
    qed
    have s: "sort (?ps @ [?m + 1]) = sort ?ps @ [?m + 1]" by (rule sort_snoc_max[OF le])
    have s2: "sort (?ps @ [?m + 1]) = map (\<lambda>i. lo + int i) [0..<Suc ?n]"
      unfolding s by (simp add: run[symmetric] m)
    have s3: "sort (?ps @ [?m + 1]) = lo # rest @ [?m + 1]"
      unfolding s by (simp add: lr)
    have "list_all (\<lambda>p. 0 \<le> p) (?ps @ [?m + 1])"
      using nn lo0 by (simp add: m)
    moreover have "(case sort (?ps @ [?m + 1]) of [] \<Rightarrow> True
       | lo # rest \<Rightarrow> sort (?ps @ [?m + 1]) = map (\<lambda>i. lo + int i) [0..<length (?ps @ [?m + 1])])"
    proof (rule case_run[OF s3])
      show "sort (?ps @ [?m + 1]) = map (\<lambda>i. lo + int i) [0..<length (?ps @ [?m + 1])]"
        using s2 by simp
    qed
    ultimately show ?thesis
      unfolding create_positions contiguous_def by blast
  qed
qed

section \<open>Properties of the wire format\<close>





section \<open>Claim C1: the retry budget of a pending action\<close>

lemma failing_run:
  "run_cycles failing_cycles (queueAction Map.empty stuck_action) =
     (Map.empty, [stuck_action, stuck_action\<lparr>RetryCount := 1\<rparr>, stuck_action\<lparr>RetryCount := 2\<rparr>])"
  by (simp add: failing_cycles_def stuck_action_def queueAction_def executePendingActions_def
      snapshot_def map_filter_simps sort_by_priority_def sort_outer.simps sort_inner.simps
      attempt_def removeAction_def Let_def)

text \<open>
  Claim C1.  Start from a queue in which every action is stored under its ID with a
  retry count from 0 to 2 (a fresh action has count 0), and run any number of
  execution cycles, whatever the API answers and in whatever order the map is
  enumerated.  Then every action still queued has a retry count below 3; an action
  that was queued with count \<open>r\<close> is handed to \<^verbatim>\<open>executeAction\<close> at most
  \<open>3 - r\<close> times in total, so a fresh action is never attempted a fourth time; and
  in every state reached, one more cycle removes an action whose call succeeds,
  re-queues a failed action with its count incremented while the new count is below
  3, and removes it otherwise.
\<close>

theorem retry_budget:
  assumes "queue_ok q" and "valid_cycles cs q"
  shows "queue_ok (fst (run_cycles cs q)) \<and>
    (\<forall>k a. q k = Some a \<longrightarrow> int (attempts_of k (snd (run_cycles cs q))) \<le> 3 - RetryCount a) \<and>
    (\<forall>executeAction keys k. enumerates keys (fst (run_cycles cs q)) \<longrightarrow>
        fst (executePendingActions executeAction keys (fst (run_cycles cs q))) k =
          (case fst (run_cycles cs q) k of
             None \<Rightarrow> None
           | Some a \<Rightarrow>
               if executeAction a then None
               else if RetryCount a + 1 < 3 then Some (a\<lparr>RetryCount := RetryCount a + 1\<rparr>)
               else None))"
proof (intro conjI allI impI)
  show ok: "queue_ok (fst (run_cycles cs q))"
    by (rule queue_ok_run[OF assms])
  show "int (attempts_of k (snd (run_cycles cs q))) \<le> 3 - RetryCount a" if "q k = Some a" for k a
    by (rule attempts_bound[OF assms that])
  show "fst (executePendingActions ex keys (fst (run_cycles cs q))) k =
          (case fst (run_cycles cs q) k of
             None \<Rightarrow> None
           | Some a \<Rightarrow>
               if ex a then None
               else if RetryCount a + 1 < 3 then Some (a\<lparr>RetryCount := RetryCount a + 1\<rparr>)
               else None)"
    if "enumerates keys (fst (run_cycles cs q))" for ex keys k
    using queue_after_cycle[OF ok that, of ex k]
    by (simp add: outcome_def split: option.splits)
qed


theorem retry_budget_witness:
  "queue_ok (queueAction Map.empty stuck_action) \<and>
   valid_cycles failing_cycles (queueAction Map.empty stuck_action) \<and>
   fst (run_cycles failing_cycles (queueAction Map.empty stuck_action)) ''a1'' = None \<and>
   map RetryCount (snd (run_cycles failing_cycles (queueAction Map.empty stuck_action))) = [0, 1, 2] \<and>
   int (attempts_of ''a1'' (snd (run_cycles failing_cycles (queueAction Map.empty stuck_action))))
     \<le> 3 - RetryCount stuck_action"
proof -
  have h1: "queue_ok (queueAction Map.empty stuck_action)"
    by (simp add: queue_ok_def queueAction_def stuck_action_def)
  have h2: "valid_cycles failing_cycles (queueAction Map.empty stuck_action)"
    by (simp add: failing_cycles_def stuck_action_def queueAction_def executePendingActions_def
      snapshot_def map_filter_simps sort_by_priority_def sort_outer.simps sort_inner.simps
      attempt_def removeAction_def Let_def enumerates_def)
  have q: "queueAction Map.empty stuck_action ''a1'' = Some stuck_action"
    by (simp add: queueAction_def stuck_action_def)
  from retry_budget[OF h1 h2] q
  have "int (attempts_of ''a1'' (snd (run_cycles failing_cycles (queueAction Map.empty stuck_action))))
     \<le> 3 - RetryCount stuck_action" by blast
  moreover have "fst (run_cycles failing_cycles (queueAction Map.empty stuck_action)) ''a1'' = None"
    by (simp only: failing_run fst_conv)
  moreover have
    "map RetryCount (snd (run_cycles failing_cycles (queueAction Map.empty stuck_action))) = [0, 1, 2]"
    by (simp only: failing_run snd_conv) (simp add: stuck_action_def)
  ultimately show ?thesis using h1 h2 by blast
qed

section \<open>Claim C2: bottleneck detection after a task move\<close>

text \<open>
  Claim C2.  Let a \<^verbatim>\<open>task.moved\<close> event name a board whose identifier parses, and
  let a column of that board have a positive WIP limit and more tasks than the limit.
  Then \<^verbatim>\<open>handleTaskMoved\<close> returns without error, and among the risk predictions
  it has added there is one for that board with type \<open>bottleneck\<close>, level
  \<open>high\<close> and score 0.8, whose data record the column, the task count, the limit
  and \<open>overflowBy\<close> = task count - limit.  On the example board the limit is 3,
  the column holds 4 tasks and \<open>overflowBy\<close> is 1.
\<close>

theorem bottleneck_alert_created:
  assumes "parse_uuid e (EventBoardID event) = Some boardID"
    and "column \<in> set (db_columns db)"
    and "ColumnBoardID column = boardID"
    and "WIPLimit column > 0"
    and "int (length (column_tasks db column)) > WIPLimit column"
  shows "\<exists>db' risk.
           handleTaskMoved e event db = Inr db' \<and>
           risk \<in> set (drop (length (db_risks db)) (db_risks db')) \<and>
           RiskBoardID risk = boardID \<and> RiskType risk = ''bottleneck'' \<and>
           RiskLevel risk = ''high'' \<and> RiskScore risk = 0.8 \<and>
           RiskData risk ''columnId'' = Some (GString (ColumnID column)) \<and>
           RiskData risk ''taskCount'' = Some (GInt (int (length (column_tasks db column)))) \<and>
           RiskData risk ''wipLimit'' = Some (GInt (WIPLimit column)) \<and>
           RiskData risk ''overflowBy'' =
             Some (GInt (int (length (column_tasks db column)) - WIPLimit column))"
proof -
  obtain db1 where c: "updateCycleTimeMetrics (parse_uuid e) (iso_week_of e) (clock e)
      (EventBoardID event) db = Inr db1"
    using cycle_time_ok[of "parse_uuid e" "EventBoardID event" boardID "iso_week_of e" "clock e" db] assms(1)
    by blast
  from cycle_time_tables[OF c]
  have t: "db_columns db1 = db_columns db" "db_tasks db1 = db_tasks db" "db_risks db1 = db_risks db"
    by simp_all
  have ct: "column_tasks db1 = column_tasks db"
    by (rule ext) (simp add: column_tasks_def t)
  have ol: "over_limit db1 = over_limit db"
    by (rule ext) (simp add: over_limit_def ct)
  let ?new = "map (\<lambda>c. bottleneck_risk boardID c (column_tasks db c))
             (filter (over_limit db) (filter (\<lambda>c. ColumnBoardID c = boardID) (db_columns db)))"
  let ?db' = "db1\<lparr>db_risks := db_risks db @ ?new\<rparr>"
  let ?risk = "bottleneck_risk boardID column (column_tasks db column)"
  have r: "handleTaskMoved e event db = Inr ?db'"
    by (simp add: handleTaskMoved_def c analyze_risks[of "parse_uuid e" "EventBoardID event" boardID] assms(1) t ct ol)
  have "over_limit db column" using assms(4,5) by (simp add: over_limit_def)
  then have m: "?risk \<in> set ?new" using assms(2,3) by auto
  have d: "drop (length (db_risks db)) (db_risks ?db') = ?new" by simp
  have f: "RiskBoardID ?risk = boardID \<and> RiskType ?risk = ''bottleneck'' \<and>
           RiskLevel ?risk = ''high'' \<and> RiskScore ?risk = 0.8 \<and>
           RiskData ?risk ''columnId'' = Some (GString (ColumnID column)) \<and>
           RiskData ?risk ''taskCount'' = Some (GInt (int (length (column_tasks db column)))) \<and>
           RiskData ?risk ''wipLimit'' = Some (GInt (WIPLimit column)) \<and>
           RiskData ?risk ''overflowBy'' =
             Some (GInt (int (length (column_tasks db column)) - WIPLimit column))"
    by (simp add: bottleneck_risk_def)
  from r m d f show ?thesis by (intro exI[of _ ?db'] exI[of _ ?risk]) (simp only: simp_thms)
qed

theorem bottleneck_alert_created_witness:
  "parse_uuid plain_env (EventBoardID moved_event) = Some ''board-1'' \<and>
   wip_column \<in> set (db_columns crowded_db) \<and>
   ColumnBoardID wip_column = ''board-1'' \<and>
   WIPLimit wip_column = 3 \<and>
   length (column_tasks crowded_db wip_column) = 4 \<and>
   (\<exists>db' risk.
      handleTaskMoved plain_env moved_event crowded_db = Inr db' \<and>
      risk \<in> set (db_risks db') \<and>
      RiskType risk = ''bottleneck'' \<and> RiskLevel risk = ''high'' \<and> RiskScore risk = 0.8 \<and>
      RiskData risk ''overflowBy'' = Some (GInt 1))"
proof -
  have h1: "parse_uuid plain_env (EventBoardID moved_event) = Some ''board-1''"
    by (simp add: plain_env_def moved_event_def)
  have h2: "wip_column \<in> set (db_columns crowded_db)" by (simp add: crowded_db_def)
  have h3: "ColumnBoardID wip_column = ''board-1''" by (simp add: wip_column_def)
  have w: "WIPLimit wip_column = 3" by (simp add: wip_column_def)
  have n: "length (column_tasks crowded_db wip_column) = 4"
    by (simp add: column_tasks_def crowded_db_def wip_column_def open_task_def)
  have h4: "WIPLimit wip_column > 0" by (simp add: w)
  have h5: "int (length (column_tasks crowded_db wip_column)) > WIPLimit wip_column"
    by (simp add: w n)
  from bottleneck_alert_created[OF h1 h2 h3 h4 h5]
  obtain db' risk where
    "handleTaskMoved plain_env moved_event crowded_db = Inr db'"
    "risk \<in> set (drop (length (db_risks crowded_db)) (db_risks db'))"
    "RiskType risk = ''bottleneck''" "RiskLevel risk = ''high''" "RiskScore risk = 0.8"
    "RiskData risk ''overflowBy'' =
       Some (GInt (int (length (column_tasks crowded_db wip_column)) - WIPLimit wip_column))"
    by blast
  moreover from this have "risk \<in> set (db_risks db')" by (meson in_set_dropD)
  ultimately have "\<exists>db' risk.
      handleTaskMoved plain_env moved_event crowded_db = Inr db' \<and>
      risk \<in> set (db_risks db') \<and>
      RiskType risk = ''bottleneck'' \<and> RiskLevel risk = ''high'' \<and> RiskScore risk = 0.8 \<and>
      RiskData risk ''overflowBy'' = Some (GInt 1)"
    by (simp add: w n) blast
  with h1 h2 h3 w n show ?thesis by blast
qed

section \<open>Claim C3: the velocity projection\<close>

text \<open>
  Claim C3 at two concrete inputs.  On Sunday 7 January 2024 at noon a task of five
  points completed the day before lies in the current ISO week, so the velocity of
  the claim is 5 / (1 + 1); \<^verbatim>\<open>weekStart\<close> is that very moment, the query selects
  nothing, and the processor saves the velocity 0 under the ISO week of the clock.
  On Wednesday 10 January 2024 at 15:00 the board has two tasks completed on Sunday
  7 January, at 15:00 and at 15:30, which lie in the ISO week before the current one,
  so the velocity of the claim is 0; \<^verbatim>\<open>weekStart\<close> is Sunday 15:00, the query
  selects both tasks (and neither the open task nor the task of the other board), and
  the velocity is 6 / (2 + 1).
\<close>

theorem velocity_window_failing_input:
  "iso_week_index 1704535200 = iso_week_index sunday_noon \<and>
   updateVelocityMetrics Some (\<lambda>t. 1) sunday_noon ''board-1'' weekend_db =
     Inr (weekend_db\<lparr>db_metrics :=
            [\<lparr>MetricBoardID = ''board-1'', SprintWeek = 1, Velocity = 0, Completed = 0,
              TotalPoints = 0, Throughput = 0, CycleTime = 0\<rparr>]\<rparr>) \<and>
   spec_velocity sunday_noon ''board-1'' (db_tasks weekend_db) = 5 / 2 \<and>
   iso_week_index 1704641400 \<noteq> iso_week_index wednesday_afternoon \<and>
   iso_week_index 1704639600 \<noteq> iso_week_index wednesday_afternoon \<and>
   velocity_metric (\<lambda>t. 2) wednesday_afternoon ''board-1'' midweek_tasks =
     \<lparr>MetricBoardID = ''board-1'', SprintWeek = 2, Velocity = 2, Completed = 2,
      TotalPoints = 6, Throughput = 2, CycleTime = 0\<rparr> \<and>
   spec_velocity wednesday_afternoon ''board-1'' midweek_tasks = 0"
proof -
  have a: "iso_week_index 1704535200 = iso_week_index sunday_noon"
    by (simp add: iso_week_index_def sunday_noon_def)
  have b: "completed_since ''board-1'' (AddDays sunday_noon (- Weekday sunday_noon)) (db_tasks weekend_db) = []"
    using weekend_none by (simp add: AddDays_def)
  have c: "updateVelocityMetrics Some (\<lambda>t. 1) sunday_noon ''board-1'' weekend_db =
     Inr (weekend_db\<lparr>db_metrics :=
            [\<lparr>MetricBoardID = ''board-1'', SprintWeek = 1, Velocity = 0, Completed = 0,
              TotalPoints = 0, Throughput = 0, CycleTime = 0\<rparr>]\<rparr>)"
    by (simp add: updateVelocityMetrics_def velocity_metric_def b Let_def) (simp add: weekend_db_def)
  have d: "spec_velocity sunday_noon ''board-1'' (db_tasks weekend_db) = 5 / 2"
    by (simp add: spec_velocity_def weekend_db_def saturday_task_def a[simplified] Let_def)
  have e: "iso_week_index 1704641400 \<noteq> iso_week_index wednesday_afternoon"
    by (simp add: iso_week_index_def wednesday_afternoon_def)
  have w: "Weekday wednesday_afternoon = 3"
    by (simp add: Weekday_def wednesday_afternoon_def)
  have e': "iso_week_index 1704639600 \<noteq> iso_week_index wednesday_afternoon"
    by (simp add: iso_week_index_def wednesday_afternoon_def)
  have sel: "completed_since ''board-1'' (AddDays wednesday_afternoon (- 3)) midweek_tasks =
               [sunday_task, boundary_task]"
    by (simp add: AddDays_def completed_since_def midweek_tasks_def sunday_task_def
        foreign_task_def pending_task_def boundary_task_def wednesday_afternoon_def)
  have f: "velocity_metric (\<lambda>t. 2) wednesday_afternoon ''board-1'' midweek_tasks =
     \<lparr>MetricBoardID = ''board-1'', SprintWeek = 2, Velocity = 2, Completed = 2,
      TotalPoints = 6, Throughput = 2, CycleTime = 0\<rparr>"
    by (simp only: velocity_metric_def w Let_def sel)
       (simp add: sunday_task_def boundary_task_def)
  have g: "spec_velocity wednesday_afternoon ''board-1'' midweek_tasks = 0"
    by (simp add: spec_velocity_def midweek_tasks_def sunday_task_def foreign_task_def
        pending_task_def boundary_task_def iso_week_index_def wednesday_afternoon_def Let_def)
  from a c d e e' f g show ?thesis by blast
qed


section \<open>Claim C4: priorities and the order of execution\<close>

text \<open>
  Claim C4, as far as the code carries it.  An alert handled without error and
  without panic either leaves the queue as it is or queues one action under the new
  ID, with priority 1 for an overload alert, 3 for a deadline alert and 2 for a
  bottleneck or WIP-violation alert.  One run of the execution loop calls
  \<^verbatim>\<open>executeAction\<close> on exactly the queued actions, in an order that is descending
  in the integer \<^verbatim>\<open>Priority\<close>: the larger number goes first.  So every
  deadline action (priority 3) is attempted before every overload action
  (priority 1), not after it.
\<close>

theorem priority_order:
  assumes "handleRiskAlert newID now fetch alert q = Done q'"
    and "enumerates keys pending"
  shows "(q' = q \<or>
           (\<exists>a. q' = queueAction q a \<and> ID a = newID \<and>
                Priority a = (if AlertType alert = ''overload'' then 1
                              else if AlertType alert = ''deadline_risk'' then 3
                              else 2))) \<and>
         set (snd (executePendingActions executeAction keys pending)) = ran pending \<and>
         sorted_wrt (\<lambda>a b. Priority b \<le> Priority a)
           (snd (executePendingActions executeAction keys pending)) \<and>
         (\<forall>i j. i < length (snd (executePendingActions executeAction keys pending)) \<and>
                j < length (snd (executePendingActions executeAction keys pending)) \<and>
                Priority (snd (executePendingActions executeAction keys pending) ! i) = 3 \<and>
                Priority (snd (executePendingActions executeAction keys pending) ! j) = 1
                \<longrightarrow> i < j)"
proof (intro conjI)
  let ?calls = "snd (executePendingActions executeAction keys pending)"
  show "q' = q \<or>
           (\<exists>a. q' = queueAction q a \<and> ID a = newID \<and>
                Priority a = (if AlertType alert = ''overload'' then 1
                              else if AlertType alert = ''deadline_risk'' then 3
                              else 2))"
  proof (cases "AlertType alert = ''bottleneck''")
    case True
    with assms(1) bottleneck_priority[of newID now alert q q'] show ?thesis
      by (auto simp: handleRiskAlert_def)
  next
    case nb: False
    show ?thesis
    proof (cases "AlertType alert = ''overload''")
      case True
      with assms(1) overload_priority[of newID now fetch alert q q'] show ?thesis
        by (auto simp: handleRiskAlert_def)
    next
      case no: False
      show ?thesis
      proof (cases "AlertType alert = ''deadline_risk''")
        case True
        with assms(1) deadline_priority[of newID now alert q q'] show ?thesis
          by (auto simp: handleRiskAlert_def)
      next
        case nd: False
        show ?thesis
        proof (cases "AlertType alert = ''wip_violation''")
          case True
          with assms(1) wip_priority[of newID now alert q q'] show ?thesis
            by (auto simp: handleRiskAlert_def)
        next
          case False
          with nb no nd assms(1) show ?thesis by (simp add: handleRiskAlert_def)
        qed
      qed
    qed
  qed
  show "set ?calls = ran pending" by (rule calls_ran[OF assms(2)])
  show s: "sorted_wrt (\<lambda>a b. Priority b \<le> Priority a) ?calls" by (rule calls_sorted)
  show "\<forall>i j. i < length ?calls \<and> j < length ?calls \<and>
                Priority (?calls ! i) = 3 \<and> Priority (?calls ! j) = 1 \<longrightarrow> i < j"
  proof (intro allI impI)
    fix i j
    assume h: "i < length ?calls \<and> j < length ?calls \<and>
                Priority (?calls ! i) = 3 \<and> Priority (?calls ! j) = 1"
    show "i < j"
    proof (rule ccontr)
      assume "\<not> i < j"
      with h have "j < i" by (cases "i = j") auto
      moreover from h have "i < length ?calls" by simp
      ultimately have "Priority (?calls ! i) \<le> Priority (?calls ! j)"
        using s unfolding sorted_wrt_iff_nth_less by blast
      with h show False by simp
    qed
  qed
qed


theorem priority_order_witness:
  "handleRiskAlert ''act-2'' 1 pair_reply deadline_alert [''act-1'' \<mapsto> overload_action] =
     Done [''act-1'' \<mapsto> overload_action, ''act-2'' \<mapsto> deadline_action] \<and>
   enumerates [''act-1'', ''act-2''] [''act-1'' \<mapsto> overload_action, ''act-2'' \<mapsto> deadline_action] \<and>
   sorted_wrt (\<lambda>a b. Priority b \<le> Priority a)
     (snd (executePendingActions (\<lambda>_. True) [''act-1'', ''act-2'']
        [''act-1'' \<mapsto> overload_action, ''act-2'' \<mapsto> deadline_action])) \<and>
   set (snd (executePendingActions (\<lambda>_. True) [''act-1'', ''act-2'']
        [''act-1'' \<mapsto> overload_action, ''act-2'' \<mapsto> deadline_action])) =
     ran [''act-1'' \<mapsto> overload_action, ''act-2'' \<mapsto> deadline_action]"
proof -
  have h1: "handleRiskAlert ''act-2'' 1 pair_reply deadline_alert [''act-1'' \<mapsto> overload_action] =
     Done [''act-1'' \<mapsto> overload_action, ''act-2'' \<mapsto> deadline_action]"
    by (rule deadline_queued)
  have h2: "enumerates [''act-1'', ''act-2'']
              [''act-1'' \<mapsto> overload_action, ''act-2'' \<mapsto> deadline_action]"
    by (auto simp: enumerates_def)
  from priority_order[OF h1 h2, of "\<lambda>_. True"] h1 h2 show ?thesis by blast
qed


text \<open>
  The claim as stated has the overload action (priority 1) attempted before the
  others.  With one overload action and one deadline action queued, whichever way the
  map is enumerated, the deadline action is attempted first and the overload action
  last.
\<close>

theorem priority_order_counterexample:
  "handleRiskAlert ''act-1'' 0 pair_reply overload_alert Map.empty =
     Done [''act-1'' \<mapsto> overload_action] \<and>
   handleRiskAlert ''act-2'' 1 pair_reply deadline_alert [''act-1'' \<mapsto> overload_action] =
     Done [''act-1'' \<mapsto> overload_action, ''act-2'' \<mapsto> deadline_action] \<and>
   map (\<lambda>a. (Type a, Priority a))
     (snd (executePendingActions (\<lambda>_. True) [''act-1'', ''act-2'']
        [''act-1'' \<mapsto> overload_action, ''act-2'' \<mapsto> deadline_action])) =
     [(''reassign_overdue'', 3), (''redistribute_tasks'', 1)] \<and>
   map (\<lambda>a. (Type a, Priority a))
     (snd (executePendingActions (\<lambda>_. True) [''act-2'', ''act-1'']
        [''act-1'' \<mapsto> overload_action, ''act-2'' \<mapsto> deadline_action])) =
     [(''reassign_overdue'', 3), (''redistribute_tasks'', 1)]"
  by (simp only: overload_queued deadline_queued run_two run_two_rev)
     (simp add: overload_action_def deadline_action_def)


section \<open>Claim C5: the reassignment target of an overload alert\<close>

text \<open>
  Claim C5 at a concrete input.  The alert names Carol as the overloaded user; the
  analytics endpoint answers with Alice (1 task), Bob (5 tasks) and Carol (9 tasks,
  overloaded), in this order.  The least-loaded eligible user is Alice, and the
  specification's search returns her.  The handler queues one
  \<^verbatim>\<open>redistribute_tasks\<close> action whose \<^verbatim>\<open>toUserId\<close> is Carol: the pointer kept by
  the loop is the address of the loop variable, which holds the last element of the
  answer when the loop ends.
\<close>

theorem overload_target_failing_input:
  "handleOverloadAlert ''act-1'' 0 team_reply overload_alert Map.empty =
     Done [''act-1'' \<mapsto> misdirected_action] \<and>
   Data misdirected_action ''toUserId'' = Some (GString ''carol'') \<and>
   spec_target ''carol'' (map workload_of [alice, bob, carol]) = Some (workload_of alice) \<and>
   UserID (workload_of alice) = ''alice''"
proof -
  have a: "AlertData overload_alert ''userId'' = Some (GString ''carol'')"
    by (simp add: overload_alert_def)
  have b: "analyzeWorkload (team_reply ''board-1'') = Some (map workload_of [alice, bob, carol])"
    by (simp add: analyzeWorkload_def team_reply_def)
  have c: "UserID (workload_of carol) = ''carol''"
    by (simp add: workload_of_def carol_def)
  have d: "AlertBoardID overload_alert = ''board-1''" "AlertID overload_alert = ''alert-1''"
    by (simp_all add: overload_alert_def)
  have "handleOverloadAlert ''act-1'' 0 team_reply overload_alert Map.empty =
     Done [''act-1'' \<mapsto> misdirected_action]"
    by (simp only: handleOverloadAlert_def a b team_target c d option.case gval.case
          queueAction_def misdirected_action_def) simp
  moreover have "Data misdirected_action ''toUserId'' = Some (GString ''carol'')"
    by (simp add: misdirected_action_def)
  moreover have "spec_target ''carol'' (map workload_of [alice, bob, carol]) = Some (workload_of alice)"
    by (simp add: eligible_def workload_of_def alice_def bob_def carol_def)
  moreover have "UserID (workload_of alice) = ''alice''"
    by (simp add: workload_of_def alice_def)
  ultimately show ?thesis by blast
qed

section \<open>Claim C6: the answers of the consume loop\<close>

lemma toy_run:
  "deliver toy_unmarshal toy_handler (\<lambda>b q. q @ [b]) 4 [''bad-board'', ''{'', ''ok''] 0 =
     ([(''bad-board'', Nack False True), (''{'', Nack False False), (''ok'', Ack False),
       (''bad-board'', Nack False True)], [''bad-board''], 3)"
  by (simp add: numeral_eq_Suc consume_one_def toy_unmarshal_def toy_handler_def toy_event_def)

text \<open>
  Claim C6.  For every delivery the loop of \<^verbatim>\<open>ConsumeEvents\<close> answers: a body that
  does not decode is rejected without requeue and the consumer's state is untouched; a
  decoded event whose handler returns an error is rejected with \<^verbatim>\<open>requeue=true\<close>;
  a decoded event whose handler returns \<^verbatim>\<open>nil\<close> is acknowledged.  After any of
  the three the loop goes on with the next delivery, so every delivery gets one
  answer.  A message whose handler fails in every state is, wherever the broker puts
  requeued messages, still in the queue after any number of deliveries, and every
  delivery of it is answered with \<^verbatim>\<open>requeue=true\<close>: the loop has no condition for
  giving up.
\<close>

theorem consume_acknowledgement:
  "(unmarshal garbled = None \<longrightarrow>
       consume_one unmarshal handler garbled s = (Nack False False, s)) \<and>
   (unmarshal failing = Some event \<and> handler event s = (Some err, s') \<longrightarrow>
       consume_one unmarshal handler failing s = (Nack False True, s')) \<and>
   (unmarshal good = Some event' \<and> handler event' s = (None, s'') \<longrightarrow>
       consume_one unmarshal handler good s = (Ack False, s'')) \<and>
   consume_loop unmarshal handler (body # msgs) s =
     (fst (consume_one unmarshal handler body s) #
        fst (consume_loop unmarshal handler msgs (snd (consume_one unmarshal handler body s))),
      snd (consume_loop unmarshal handler msgs (snd (consume_one unmarshal handler body s)))) \<and>
   length (fst (consume_loop unmarshal handler msgs s)) = length msgs \<and>
   (unmarshal failing = Some event \<and> (\<forall>t. fst (handler event t) \<noteq> None) \<and>
    (\<forall>b q. set (requeue b q) = insert b (set q)) \<and> failing \<in> set queue \<longrightarrow>
       failing \<in> set (fst (snd (deliver unmarshal handler requeue n queue s))) \<and>
       (\<forall>a. (failing, a) \<in> set (fst (deliver unmarshal handler requeue n queue s)) \<longrightarrow>
            a = Nack False True))"
proof (intro conjI impI)
  show "consume_one unmarshal handler garbled s = (Nack False False, s)"
    if "unmarshal garbled = None"
    using that by (simp add: consume_one_def)
  show "consume_one unmarshal handler failing s = (Nack False True, s')"
    if "unmarshal failing = Some event \<and> handler event s = (Some err, s')"
    using that by (simp add: consume_one_def)
  show "consume_one unmarshal handler good s = (Ack False, s'')"
    if "unmarshal good = Some event' \<and> handler event' s = (None, s'')"
    using that by (simp add: consume_one_def)
  show "consume_loop unmarshal handler (body # msgs) s =
     (fst (consume_one unmarshal handler body s) #
        fst (consume_loop unmarshal handler msgs (snd (consume_one unmarshal handler body s))),
      snd (consume_loop unmarshal handler msgs (snd (consume_one unmarshal handler body s))))"
    by (simp add: split_beta Let_def)
  show "length (fst (consume_loop unmarshal handler msgs s)) = length msgs"
    by (rule length_consume_loop)
next
  assume h: "unmarshal failing = Some event \<and> (\<forall>t. fst (handler event t) \<noteq> None) \<and>
    (\<forall>b q. set (requeue b q) = insert b (set q)) \<and> failing \<in> set queue"
  have k: "failing \<in> set (fst (snd (deliver unmarshal handler requeue n queue s))) \<and>
       (\<forall>a. (failing, a) \<in> set (fst (deliver unmarshal handler requeue n queue s)) \<longrightarrow>
            a = Nack False True)"
    by (rule deliver_keeps[of unmarshal failing event handler requeue queue n s]) (use h in auto)
  show "failing \<in> set (fst (snd (deliver unmarshal handler requeue n queue s)))"
    using k by blast
  show "\<forall>a. (failing, a) \<in> set (fst (deliver unmarshal handler requeue n queue s)) \<longrightarrow>
            a = Nack False True"
    using k by blast
qed


theorem consume_acknowledgement_witness:
  "toy_unmarshal ''{'' = None \<and>
   consume_one toy_unmarshal toy_handler ''{'' 0 = (Nack False False, 0) \<and>
   toy_unmarshal ''bad-board'' = Some (toy_event ''broken'') \<and>
   toy_handler (toy_event ''broken'') 0 = (Some ''failed to store event'', 1) \<and>
   consume_one toy_unmarshal toy_handler ''bad-board'' 0 = (Nack False True, 1) \<and>
   toy_unmarshal ''ok'' = Some (toy_event ''task.created'') \<and>
   toy_handler (toy_event ''task.created'') 0 = (None, 1) \<and>
   consume_one toy_unmarshal toy_handler ''ok'' 0 = (Ack False, 1) \<and>
   ''bad-board'' \<in> set [''bad-board'', ''{'', ''ok''] \<and>
   ''bad-board'' \<in> set (fst (snd (deliver toy_unmarshal toy_handler (\<lambda>b q. q @ [b]) 4
                                  [''bad-board'', ''{'', ''ok''] 0))) \<and>
   fst (deliver toy_unmarshal toy_handler (\<lambda>b q. q @ [b]) 4 [''bad-board'', ''{'', ''ok''] 0) =
     [(''bad-board'', Nack False True), (''{'', Nack False False), (''ok'', Ack False),
      (''bad-board'', Nack False True)]"
proof -
  have g: "toy_unmarshal ''{'' = None" by (simp add: toy_unmarshal_def)
  have f1: "toy_unmarshal ''bad-board'' = Some (toy_event ''broken'')"
    by (simp add: toy_unmarshal_def)
  have f2: "toy_handler (toy_event ''broken'') 0 = (Some ''failed to store event'', 1)"
    by (simp add: toy_handler_def toy_event_def)
  have o1: "toy_unmarshal ''ok'' = Some (toy_event ''task.created'')"
    by (simp add: toy_unmarshal_def)
  have o2: "toy_handler (toy_event ''task.created'') 0 = (None, 1)"
    by (simp add: toy_handler_def toy_event_def)
  have p: "\<forall>t. fst (toy_handler (toy_event ''broken'') t) \<noteq> None"
    by (simp add: toy_handler_def toy_event_def)
  have r: "\<forall>b q::string list. set (q @ [b]) = insert b (set q)" by simp
  have m: "''bad-board'' \<in> set [''bad-board'', ''{'', ''ok'']" by simp
  note t = consume_acknowledgement[of toy_unmarshal "''{''" toy_handler 0 "''bad-board''"
      "toy_event ''broken''" "''failed to store event''" 1 "''ok''" "toy_event ''task.created''" 1
      "''ok''" "[]" "\<lambda>b q. q @ [b]" "[''bad-board'', ''{'', ''ok'']" 4]
  from t g have c1: "consume_one toy_unmarshal toy_handler ''{'' 0 = (Nack False False, 0)"
    by blast
  from t f1 f2 have c2: "consume_one toy_unmarshal toy_handler ''bad-board'' 0 = (Nack False True, 1)"
    by blast
  from t o1 o2 have c3: "consume_one toy_unmarshal toy_handler ''ok'' 0 = (Ack False, 1)"
    by blast
  from t f1 p r m have c4: "''bad-board'' \<in> set (fst (snd (deliver toy_unmarshal toy_handler
      (\<lambda>b q. q @ [b]) 4 [''bad-board'', ''{'', ''ok''] 0)))"
    by blast
  have c5: "fst (deliver toy_unmarshal toy_handler (\<lambda>b q. q @ [b]) 4 [''bad-board'', ''{'', ''ok''] 0) =
     [(''bad-board'', Nack False True), (''{'', Nack False False), (''ok'', Ack False),
      (''bad-board'', Nack False True)]"
    by (simp only: toy_run fst_conv)
  from g c1 f1 f2 c2 o1 o2 c3 m c4 c5 show ?thesis by blast
qed

section \<open>Claim C7: dense positions within a column\<close>

text \<open>
  Claim C7 at two concrete inputs.  The column holds the tasks a, b, c and d at the
  positions 0, 1, 2 and 3, which are contiguous.  Deleting b answers 200 and leaves
  the positions 0, 2 and 3: \<^verbatim>\<open>DeleteTask\<close> removes the row and shifts nothing.
  Moving c to position 1 of the same column answers 200 and leaves a, c, b and d at
  0, 1, 2 and 4: the shift that closes the old place is made only when the column
  changes, while the shift that opens the new place also moves the tasks behind the
  old one.
\<close>

theorem delete_leaves_gap:
  "contiguous (column_positions four_task_db ''col-1'') \<and>
   fst (DeleteTask Some ''b'' four_task_db) = StatusOK \<and>
   column_positions (snd (DeleteTask Some ''b'' four_task_db)) ''col-1'' = [0, 2, 3] \<and>
   \<not> contiguous (column_positions (snd (DeleteTask Some ''b'' four_task_db)) ''col-1'') \<and>
   fst (MoveTask Some ''c'' ''col-1'' 1 four_task_db) = StatusOK \<and>
   map (\<lambda>t. (TaskID t, Position t)) (db_tasks (snd (MoveTask Some ''c'' ''col-1'' 1 four_task_db))) =
     [(''a'', 0), (''b'', 2), (''c'', 1), (''d'', 4)] \<and>
   \<not> contiguous (column_positions (snd (MoveTask Some ''c'' ''col-1'' 1 four_task_db)) ''col-1'')"
  by (simp add: contiguous_def column_positions_def four_task_db_def column_task_def upt_rec
      DeleteTask_def MoveTask_def nil_uuid_def Let_def)

section \<open>Claim C8: publishing and consuming an event\<close>






section \<open>Claim C9: unchecked type assertions\<close>

text \<open>
  Claim C9.  There are risk alerts that decode without error and on which the agent
  panics instead of returning an error: a bottleneck alert whose data object is empty
  (the assertion on \<^verbatim>\<open>columnId\<close> fails), a bottleneck alert whose \<^verbatim>\<open>wipLimit\<close>
  is a string instead of a number, and a deadline alert without \<^verbatim>\<open>taskId\<close>.
\<close>

theorem unchecked_assertion_panics:
  "handleRiskAlert newID now fetch bare_bottleneck_alert q = Panic \<and>
   handleRiskAlert newID now fetch text_limit_alert q = Panic \<and>
   handleRiskAlert newID now fetch bare_deadline_alert q = Panic"
  by (simp add: handleRiskAlert_def handleBottleneckAlert_def handleDeadlineAlert_def
      bare_bottleneck_alert_def text_limit_alert_def bare_deadline_alert_def)

section \<open>Claim C10: default columns under redelivery\<close>

text \<open>
  Claim C10.  Let a \<^verbatim>\<open>board.created\<close> event carry a board and a user identifier
  that parse, and let it be delivered \<open>n + 1\<close> times in a row.  Every delivery is
  handled without error, and the column table at the end does not depend on
  \<open>n\<close>: if the board had no column, the five default columns of the first
  delivery have been added once (Backlog, To Do, In Progress, Review, Done, in this
  order); if it had a column, the table is as it was.
\<close>

theorem default_columns_once:
  assumes "EventType event = ''board.created''"
    and "\<And>i. parse_uuid (envs i) = parse"
    and "parse (EventBoardID event) = Some boardID"
    and "parse (EventUserID event) = Some userID"
  shows "\<exists>db'. redeliver envs (Suc n) event db = Inr db' \<and>
           db_columns db' =
             (if filter (\<lambda>c. ColumnBoardID c = boardID) (db_columns db) = []
              then db_columns db @ defaultColumns (column_ids (envs 0)) boardID
              else db_columns db) \<and>
           (filter (\<lambda>c. ColumnBoardID c = boardID) (db_columns db) = [] \<longrightarrow>
              map ColumnName (filter (\<lambda>c. ColumnBoardID c = boardID) (db_columns db')) =
                [''Backlog'', ''To Do'', ''In Progress'', ''Review'', ''Done''])"
proof -
  let ?mine = "\<lambda>c. ColumnBoardID c = boardID"
  let ?cols = "if filter ?mine (db_columns db) = []
              then db_columns db @ defaultColumns (column_ids (envs 0)) boardID
              else db_columns db"
  have ne: "filter ?mine ?cols \<noteq> []"
    by (simp add: default_board_columns) (simp add: defaultColumns_def)
  have pb: "parse_uuid (envs i) (EventBoardID event) = Some boardID" for i
    using assms(2,3) by simp
  have pu: "parse_uuid (envs i) (EventUserID event) = Some userID" for i
    using assms(2,4) by simp
  have run: "\<exists>db'. redeliver envs (Suc n) event db = Inr db' \<and> db_columns db' = ?cols"
  proof (induction n)
    case 0
    from handle_created[OF assms(1) pb pu, of 0 db]
    show ?case by simp
  next
    case (Suc n)
    then obtain db1 where r: "redeliver envs (Suc n) event db = Inr db1"
      and c: "db_columns db1 = ?cols" by blast
    from handle_created[OF assms(1) pb pu, of "Suc n" db1]
    obtain db2 where h: "handleEvent (envs (Suc n)) event db1 = Inr db2"
      and c2: "db_columns db2 =
             (if filter ?mine (db_columns db1) = []
              then db_columns db1 @ defaultColumns (column_ids (envs (Suc n))) boardID
              else db_columns db1)"
      by blast
    have "filter ?mine (db_columns db1) \<noteq> []" unfolding c by (rule ne)
    then have c3: "db_columns db2 = ?cols" using c2 c by simp
    have "redeliver envs (Suc (Suc n)) event db = handleEvent (envs (Suc n)) event db1"
      by (simp only: redeliver.simps(2)[of envs "Suc n"] r sum.case)
    with h have "redeliver envs (Suc (Suc n)) event db = Inr db2" by simp
    with c3 show ?case by blast
  qed
  then obtain db' where r: "redeliver envs (Suc n) event db = Inr db'"
    and c: "db_columns db' = ?cols" by blast
  have names: "filter ?mine (db_columns db) = [] \<longrightarrow>
          map ColumnName (filter ?mine (db_columns db')) =
            [''Backlog'', ''To Do'', ''In Progress'', ''Review'', ''Done'']"
    by (simp add: c default_board_columns) (simp add: defaultColumns_def)
  show ?thesis
  proof (intro exI[of _ db'] conjI)
    show "redeliver envs (Suc n) event db = Inr db'" by (rule r)
    show "db_columns db' = ?cols" by (rule c)
    show "filter ?mine (db_columns db) = [] \<longrightarrow>
          map ColumnName (filter ?mine (db_columns db')) =
            [''Backlog'', ''To Do'', ''In Progress'', ''Review'', ''Done'']" by (rule names)
  qed
qed


theorem default_columns_once_witness:
  "EventType created_event = ''board.created'' \<and>
   parse_uuid plain_env (EventBoardID created_event) = Some ''board-1'' \<and>
   parse_uuid plain_env (EventUserID created_event) = Some ''user-1'' \<and>
   filter (\<lambda>c. ColumnBoardID c = ''board-1'') (db_columns empty_db) = [] \<and>
   (\<exists>db'. redeliver (\<lambda>i. plain_env) (Suc 2) created_event empty_db = Inr db' \<and>
          map ColumnName (db_columns db') =
            [''Backlog'', ''To Do'', ''In Progress'', ''Review'', ''Done''])"
proof -
  have h1: "EventType created_event = ''board.created''" by (simp add: created_event_def)
  have h2: "\<And>i. parse_uuid ((\<lambda>i. plain_env) i) = parse_uuid plain_env" by simp
  have h3: "parse_uuid plain_env (EventBoardID created_event) = Some ''board-1''"
    by (simp add: plain_env_def created_event_def)
  have h4: "parse_uuid plain_env (EventUserID created_event) = Some ''user-1''"
    by (simp add: plain_env_def created_event_def)
  have h5: "filter (\<lambda>c. ColumnBoardID c = ''board-1'') (db_columns empty_db) = []"
    by (simp add: empty_db_def)
  from default_columns_once[of created_event "\<lambda>i. plain_env", OF h1 h2 h3 h4, of 2 empty_db]
  obtain db' where k: "redeliver (\<lambda>i. plain_env) (Suc 2) created_event empty_db = Inr db' \<and>
           db_columns db' =
             (if filter (\<lambda>c. ColumnBoardID c = ''board-1'') (db_columns empty_db) = []
              then db_columns empty_db @ defaultColumns (column_ids plain_env) ''board-1''
              else db_columns empty_db) \<and>
           (filter (\<lambda>c. ColumnBoardID c = ''board-1'') (db_columns empty_db) = [] \<longrightarrow>
              map ColumnName (filter (\<lambda>c. ColumnBoardID c = ''board-1'') (db_columns db')) =
                [''Backlog'', ''To Do'', ''In Progress'', ''Review'', ''Done''])" ..
  note r = k[THEN conjunct1] and c = k[THEN conjunct2, THEN conjunct1]
  from c have "db_columns db' = defaultColumns (column_ids plain_env) ''board-1''"
    by (simp only: h5 if_True) (simp add: empty_db_def)
  then have n: "map ColumnName (db_columns db') =
            [''Backlog'', ''To Do'', ''In Progress'', ''Review'', ''Done'']"
    by (simp add: defaultColumns_def)
  have "\<exists>db'. redeliver (\<lambda>i. plain_env) (Suc 2) created_event empty_db = Inr db' \<and>
          map ColumnName (db_columns db') =
            [''Backlog'', ''To Do'', ''In Progress'', ''Review'', ''Done'']"
    by (intro exI[of _ db'] conjI) (rule r, rule n)
  with h1 h3 h4 h5 show ?thesis by (intro conjI)
qed

end
